theory Spec2Isabelle
  imports Main
begin

section \<open>JavaScript values\<close>

text \<open>
  The values that cross the program's interfaces (storage entries, request and response
  bodies, learning items) are JSON-like JavaScript values. Numbers are restricted to
  integers; a character stands for one code unit below 256. An object is the list of its
  own properties, with at most one entry per key.
\<close>

datatype jsval =
    JUndefined
  | JNull
  | JBool bool
  | JNum int
  | JStr string
  | JArr "jsval list"
  | JObj "(string \<times> jsval) list"

text \<open>What is thrown, or what a promise is rejected with.\<close>

datatype js_error =
    Error string
  | TypeError
  | SyntaxError
  | Thrown jsval

datatype 'a promise = Resolved 'a | Rejected js_error | Pending

text \<open>ToBoolean: the falsy values are undefined, null, false, 0 and the empty string.\<close>

fun truthy :: "jsval \<Rightarrow> bool" where
  "truthy JUndefined = False"
| "truthy JNull = False"
| "truthy (JBool b) = b"
| "truthy (JNum n) = (n \<noteq> 0)"
| "truthy (JStr s) = (s \<noteq> [])"
| "truthy (JArr xs) = True"
| "truthy (JObj kvs) = True"

text \<open>\<^verbatim>\<open>a || b\<close>\<close>

definition js_or :: "jsval \<Rightarrow> jsval \<Rightarrow> jsval" where
  "js_or a b = (if truthy a then a else b)"

fun isArray :: "jsval \<Rightarrow> bool" where
  "isArray (JArr xs) = True"
| "isArray v = False"

fun elems :: "jsval \<Rightarrow> jsval list" where
  "elems (JArr xs) = xs"
| "elems v = []"

text \<open>
  Reading a property of a truthy value. The keys the program reads (\<^verbatim>\<open>reply\<close>,
  \<^verbatim>\<open>learned\<close>, \<^verbatim>\<open>ts\<close>) name no built-in property, so every value that is not an
  object gives undefined.
\<close>

fun get_prop :: "jsval \<Rightarrow> string \<Rightarrow> jsval" where
  "get_prop (JObj kvs) k = (case map_of kvs k of None \<Rightarrow> JUndefined | Some v \<Rightarrow> v)"
| "get_prop v k = JUndefined"

text \<open>Decimal digits of a natural number, and of an integer.\<close>

function show_nat :: "nat \<Rightarrow> string" where
  "show_nat n =
     (if n < 10 then [''0123456789'' ! n]
      else show_nat (n div 10) @ [''0123456789'' ! (n mod 10)])"
  by pat_completeness auto
termination
  by (relation "measure id") auto

declare show_nat.simps [simp del]

definition show_int :: "int \<Rightarrow> string" where
  "show_int i = (if i < 0 then CHR ''-'' # show_nat (nat (- i)) else show_nat (nat i))"

fun join :: "string \<Rightarrow> string list \<Rightarrow> string" where
  "join sep [] = []"
| "join sep [x] = x"
| "join sep (x # y # ys) = x @ sep @ join sep (y # ys)"

text \<open>
  ToString, as applied by \<^verbatim>\<open>String(v)\<close> and by a template literal. It is exact on
  strings, on the other primitive values and on arrays and objects that use the built-in
  \<^verbatim>\<open>toString\<close>; an object with an own \<^verbatim>\<open>toString\<close> or \<^verbatim>\<open>valueOf\<close> property, on which
  the conversion may throw, is not covered.
\<close>

fun ToString :: "jsval \<Rightarrow> string" where
  "ToString JUndefined = ''undefined''"
| "ToString JNull = ''null''"
| "ToString (JBool b) = (if b then ''true'' else ''false'')"
| "ToString (JNum n) = show_int n"
| "ToString (JStr s) = s"
| "ToString (JArr xs) =
     join '','' (map (\<lambda>x. if x = JUndefined \<or> x = JNull then [] else ToString x) xs)"
| "ToString (JObj kvs) = ''[object Object]''"

text \<open>\<^verbatim>\<open>s.includes(p)\<close> on a string: \<open>p\<close> occurs in \<open>s\<close>.\<close>

fun includes_str :: "string \<Rightarrow> string \<Rightarrow> bool" where
  "includes_str [] p = (p = [])"
| "includes_str (c # cs) p = (take (length p) (c # cs) = p \<or> includes_str cs p)"

text \<open>
  \<^verbatim>\<open>v.includes(p)\<close> for a string \<open>p\<close>: strings and arrays have the method, every
  other value has not and the call throws a TypeError.
\<close>

fun includes_js :: "jsval \<Rightarrow> string \<Rightarrow> js_error + bool" where
  "includes_js (JStr s) p = Inr (includes_str s p)"
| "includes_js (JArr xs) p = Inr (JStr p \<in> set xs)"
| "includes_js v p = Inl TypeError"

section \<open>Key-value storage\<close>

text \<open>
  The platform's synchronous storage: the entries, and whether reads and writes throw.
  A read of an absent key gives the empty string.
\<close>

record wx_storage =
  entries :: "string \<Rightarrow> jsval option"
  get_throws :: bool
  set_throws :: bool

definition getStorageSync :: "wx_storage \<Rightarrow> string \<Rightarrow> js_error + jsval" where
  "getStorageSync st k =
     (if get_throws st then Inl (Error ''getStorageSync:fail'')
      else Inr (case entries st k of None \<Rightarrow> JStr [] | Some v \<Rightarrow> v))"

definition setStorageSync :: "wx_storage \<Rightarrow> string \<Rightarrow> jsval \<Rightarrow> js_error + wx_storage" where
  "setStorageSync st k v =
     (if set_throws st then Inl (Error ''setStorageSync:fail'')
      else Inr (st\<lparr>entries := (entries st)(k \<mapsto> v)\<rparr>))"

section \<open>Endpoint store and request executor\<close>

definition DEFAULTS :: "string list" where
  "DEFAULTS = [''http://127.0.0.1:8000'', ''http://localhost:8000'']"

definition getStoredBaseUrl :: "wx_storage \<Rightarrow> jsval" where
  "getStoredBaseUrl st =
     (case getStorageSync st ''BASE_URL'' of
        Inl e \<Rightarrow> JStr (DEFAULTS ! 0)
      | Inr v \<Rightarrow> js_or v (JStr (DEFAULTS ! 0)))"

definition setBaseUrl :: "jsval \<Rightarrow> wx_storage \<Rightarrow> wx_storage" where
  "setBaseUrl url st =
     (case setStorageSync st ''BASE_URL'' url of Inl e \<Rightarrow> st | Inr st' \<Rightarrow> st')"

text \<open>
  What a call of the executor does, in order: \<open>Request b\<close> is a call of the request
  function with base \<open>b\<close>, \<open>Store u\<close> a call of \<open>setBaseUrl\<close> with \<open>u\<close>.
\<close>

datatype event = Request jsval | Store jsval

record 'a run =
  outcome :: "'a promise"
  store :: wx_storage
  trace :: "event list"

text \<open>The candidate for the retry, chosen from the first base.\<close>

definition alternate :: "jsval \<Rightarrow> js_error + jsval" where
  "alternate first =
     (case includes_js first ''127.0.0.1'' of
        Inl e \<Rightarrow> Inl e
      | Inr b \<Rightarrow> Inr (JStr (if b then DEFAULTS ! 1 else DEFAULTS ! 0)))"

definition withFallback :: "(jsval \<Rightarrow> 'a promise) \<Rightarrow> wx_storage \<Rightarrow> 'a run" where
  "withFallback requestFn st =
     (let first = getStoredBaseUrl st in
      case alternate first of
        Inl e \<Rightarrow> \<lparr>outcome = Rejected e, store = st, trace = []\<rparr>
      | Inr alt \<Rightarrow>
          (case requestFn first of
             Resolved r \<Rightarrow> \<lparr>outcome = Resolved r, store = st, trace = [Request first]\<rparr>
           | Pending \<Rightarrow> \<lparr>outcome = Pending, store = st, trace = [Request first]\<rparr>
           | Rejected e \<Rightarrow>
               \<lparr>outcome = requestFn alt, store = setBaseUrl alt st,
                trace = [Request first, Store alt, Request alt]\<rparr>))"

text \<open>
  The transport \<^verbatim>\<open>wx.request\<close>: given method, url and body it calls \<^verbatim>\<open>success\<close>
  with a status code and a body, or \<^verbatim>\<open>fail\<close> with an error value, or neither.
\<close>

datatype wx_callback = Success int jsval | Fail jsval | NoCallback

type_synonym wx_request = "string \<Rightarrow> string \<Rightarrow> jsval \<Rightarrow> wx_callback"

record response =
  data :: jsval
  base :: jsval

text \<open>
  One attempt: the request function that \<open>wxRequest\<close> hands to \<open>withFallback\<close>.
  \<open>stringify\<close> is the platform's \<^verbatim>\<open>JSON.stringify\<close>.
\<close>

definition attempt ::
  "wx_request \<Rightarrow> (jsval \<Rightarrow> jsval) \<Rightarrow> string \<Rightarrow> string \<Rightarrow> jsval \<Rightarrow> jsval \<Rightarrow> response promise" where
  "attempt wx stringify method path body b =
     (case wx method (ToString b @ path) body of
        Success statusCode d \<Rightarrow>
          if 200 \<le> statusCode \<and> statusCode < 300 then Resolved \<lparr>data = d, base = b\<rparr>
          else Rejected (Error (''HTTP '' @ show_int statusCode @ '': '' @
                 ToString (case d of JStr s \<Rightarrow> d | _ \<Rightarrow> stringify d)))
      | Fail err \<Rightarrow> Rejected (Thrown err)
      | NoCallback \<Rightarrow> Pending)"

definition wxRequest ::
  "wx_request \<Rightarrow> (jsval \<Rightarrow> jsval) \<Rightarrow> string \<Rightarrow> string \<Rightarrow> jsval \<Rightarrow> wx_storage \<Rightarrow> response run" where
  "wxRequest wx stringify method path body st =
     withFallback (attempt wx stringify method path body) st"

text \<open>The continuation shared by \<open>post\<close> and \<open>get\<close>: persist the working base.\<close>

definition persist_base :: "response run \<Rightarrow> jsval run" where
  "persist_base r =
     (case outcome r of
        Resolved res \<Rightarrow>
          if truthy (base res)
          then \<lparr>outcome = Resolved (data res), store = setBaseUrl (base res) (store r),
                trace = trace r @ [Store (base res)]\<rparr>
          else \<lparr>outcome = Resolved (data res), store = store r, trace = trace r\<rparr>
      | Rejected e \<Rightarrow> \<lparr>outcome = Rejected e, store = store r, trace = trace r\<rparr>
      | Pending \<Rightarrow> \<lparr>outcome = Pending, store = store r, trace = trace r\<rparr>)"

definition post ::
  "wx_request \<Rightarrow> (jsval \<Rightarrow> jsval) \<Rightarrow> string \<Rightarrow> jsval \<Rightarrow> wx_storage \<Rightarrow> jsval run" where
  "post wx stringify path body st = persist_base (wxRequest wx stringify ''POST'' path body st)"

definition get :: "wx_request \<Rightarrow> (jsval \<Rightarrow> jsval) \<Rightarrow> string \<Rightarrow> wx_storage \<Rightarrow> jsval run" where
  "get wx stringify path st = persist_base (wxRequest wx stringify ''GET'' path JUndefined st)"

definition ping :: "wx_request \<Rightarrow> (jsval \<Rightarrow> jsval) \<Rightarrow> wx_storage \<Rightarrow> jsval run" where
  "ping wx stringify st = get wx stringify ''/health'' st"

section \<open>Strings: trimming, searching, splitting\<close>

text \<open>The white space of \<^verbatim>\<open>trim\<close> and of \<^verbatim>\<open>\s\<close>, among the code units below 256.\<close>

definition is_space :: "char \<Rightarrow> bool" where
  "is_space c = (c \<in> set [CHR 0x09, CHR 0x0A, CHR 0x0B, CHR 0x0C, CHR 0x0D, CHR 0x20, CHR 0xA0])"

definition trim :: "string \<Rightarrow> string" where
  "trim s = rev (dropWhile is_space (rev (dropWhile is_space s)))"

text \<open>
  The first occurrence of \<open>p\<close> in a string: what is before it and what is after it.
\<close>

fun find_sub :: "string \<Rightarrow> string \<Rightarrow> (string \<times> string) option" where
  "find_sub p [] = (if p = [] then Some ([], []) else None)"
| "find_sub p (c # cs) =
     (if take (length p) (c # cs) = p then Some ([], drop (length p) (c # cs))
      else (case find_sub p cs of
              None \<Rightarrow> None
            | Some (before, after) \<Rightarrow> Some (c # before, after)))"

definition open_tag :: string where
  "open_tag = ''<learned_json>''"

definition close_tag :: string where
  "close_tag = ''</learned_json>''"

text \<open>
  \<^verbatim>\<open>s.replace(/<learned_json>[\s\S]*?<\/learned_json>/g, '')\<close>: from left to right, each
  opening tag that has a closing tag after it is removed together with everything up to
  the nearest closing tag; the search goes on after the closing tag.
\<close>

function strip_tagged :: "string \<Rightarrow> string" where
  "strip_tagged s =
     (case find_sub open_tag s of
        None \<Rightarrow> s
      | Some (before, rest) \<Rightarrow>
          (case find_sub close_tag rest of
             None \<Rightarrow> s
           | Some (inner, after) \<Rightarrow> before @ strip_tagged after))"
  by pat_completeness auto
termination
proof (relation "measure length")
  show "wf (measure length)" by simp
next
  fix s :: string and x2 before rest y inner after
  assume a: "find_sub open_tag s = Some x2" "(before, rest) = x2"
    "find_sub close_tag rest = Some y" "(inner, after) = y"
  have len: "length after' \<le> length t" if "find_sub p t = Some (before', after')"
    for p t before' after'
    using that
    by (induction t arbitrary: before' after') (auto split: if_splits option.splits)
  have "length rest < length s"
  proof (cases s)
    case Nil
    with a(1) show ?thesis by (simp add: open_tag_def)
  next
    case (Cons c cs)
    show ?thesis
    proof (cases "take (length open_tag) s = open_tag")
      case True
      with a(1,2) Cons have "rest = drop (length open_tag) s" by auto
      with Cons show ?thesis by (simp add: open_tag_def)
    next
      case False
      with a(1,2) Cons obtain before' where "find_sub open_tag cs = Some (before', rest)"
        by (auto split: option.splits)
      then have "length rest \<le> length cs" by (rule len)
      with Cons show ?thesis by simp
    qed
  qed
  moreover have "length after \<le> length rest"
    using a(3,4) len [of close_tag rest inner after] by simp
  ultimately show "(after, s) \<in> measure length" by simp
qed

declare strip_tagged.simps [simp del]

text \<open>
  Group 1 of \<^verbatim>\<open>s.match(/<learned_json>\s*([\s\S]*?)\s*<\/learned_json>/)\<close>, \<open>None\<close> when
  there is no match: what stands between the first opening tag and the nearest closing
  tag after it, without the white space at its two ends.
\<close>

definition tagged_content :: "string \<Rightarrow> string option" where
  "tagged_content s =
     (case find_sub open_tag s of
        None \<Rightarrow> None
      | Some (before, rest) \<Rightarrow>
          (case find_sub close_tag rest of
             None \<Rightarrow> None
           | Some (inner, after) \<Rightarrow> Some (trim inner)))"

text \<open>\<^verbatim>\<open>s.split(d)\<close> for a one-character separator.\<close>

fun split_on :: "char \<Rightarrow> string \<Rightarrow> string list" where
  "split_on d [] = [[]]"
| "split_on d (c # cs) =
     (if c = d then [] # split_on d cs
      else (case split_on d cs of
              [] \<Rightarrow> [[c]]
            | w # ws \<Rightarrow> (c # w) # ws))"

section \<open>The history store\<close>

text \<open>
  The properties that \<^verbatim>\<open>{...v}\<close> copies: the own properties of an object, the elements
  of an array and the characters of a string under their indices, none for other values.
\<close>

fun index_props :: "nat \<Rightarrow> jsval list \<Rightarrow> (string \<times> jsval) list" where
  "index_props i [] = []"
| "index_props i (x # xs) = (show_nat i, x) # index_props (Suc i) xs"

fun spread :: "jsval \<Rightarrow> (string \<times> jsval) list" where
  "spread (JObj kvs) = kvs"
| "spread (JArr xs) = index_props 0 xs"
| "spread (JStr s) = index_props 0 (map (\<lambda>c. JStr [c]) s)"
| "spread v = []"

text \<open>Setting a property: an existing key keeps its place, a new key goes last.\<close>

fun set_prop :: "string \<Rightarrow> jsval \<Rightarrow> (string \<times> jsval) list \<Rightarrow> (string \<times> jsval) list" where
  "set_prop k v [] = [(k, v)]"
| "set_prop k v (p # ps) = (if fst p = k then (k, v) # ps else p # set_prop k v ps)"

text \<open>\<^verbatim>\<open>{ ...it, ts: Date.now() }\<close>, the clock reading \<open>t\<close>.\<close>

definition with_ts :: "jsval \<Rightarrow> int \<Rightarrow> jsval" where
  "with_ts it t = JObj (set_prop ''ts'' (JNum t) (spread it))"

text \<open>\<^verbatim>\<open>xs.concat(v)\<close>: an array argument is spliced in, any other value is appended.\<close>

fun concat_js :: "jsval list \<Rightarrow> jsval \<Rightarrow> jsval list" where
  "concat_js xs (JArr ys) = xs @ ys"
| "concat_js xs v = xs @ [v]"

text \<open>
  \<^verbatim>\<open>items.map(it => ({ ...it, ts: Date.now() }))\<close>: \<open>now i\<close> is the clock reading for the
  item at index \<open>i\<close>.
\<close>

fun stamp :: "(nat \<Rightarrow> int) \<Rightarrow> nat \<Rightarrow> jsval list \<Rightarrow> jsval list" where
  "stamp now i [] = []"
| "stamp now i (it # its) = with_ts it (now i) # stamp now (Suc i) its"

text \<open>The chat page's \<^verbatim>\<open>_saveHistory(items)\<close>.\<close>

definition saveHistory :: "(nat \<Rightarrow> int) \<Rightarrow> jsval list \<Rightarrow> wx_storage \<Rightarrow> wx_storage" where
  "saveHistory now items st =
     (case getStorageSync st ''learning_history'' of
        Inl e \<Rightarrow> st
      | Inr v \<Rightarrow>
          (let list = js_or v (JArr []);
               withTs = stamp now 0 items
           in case setStorageSync st ''learning_history''
                     (JArr (take 200 (concat_js withTs list))) of
                Inl e \<Rightarrow> st
              | Inr st' \<Rightarrow> st'))"

text \<open>
  The home page's \<^verbatim>\<open>_saveHistoryItem(item)\<close>. Only an array has \<^verbatim>\<open>unshift\<close>: on any
  other truthy stored value the call throws, and the error is swallowed.
\<close>

definition saveHistoryItem :: "int \<Rightarrow> jsval \<Rightarrow> wx_storage \<Rightarrow> wx_storage" where
  "saveHistoryItem now item st =
     (case getStorageSync st ''learning_history'' of
        Inl e \<Rightarrow> st
      | Inr v \<Rightarrow>
          (case js_or v (JArr []) of
             JArr list \<Rightarrow>
               (case setStorageSync st ''learning_history''
                       (JArr (take 200 (with_ts item now # list))) of
                  Inl e \<Rightarrow> st
                | Inr st' \<Rightarrow> st')
           | _ \<Rightarrow> st))"

text \<open>The history page's \<^verbatim>\<open>onClear\<close>, as far as the storage goes.\<close>

definition onClear :: "wx_storage \<Rightarrow> wx_storage" where
  "onClear st =
     (case setStorageSync st ''learning_history'' (JArr []) of Inl e \<Rightarrow> st | Inr st' \<Rightarrow> st')"

section \<open>The response normalizer (home page)\<close>

text \<open>
  \<open>parse\<close> is the platform's \<^verbatim>\<open>JSON.parse\<close>: the value, or the error it throws.
\<close>

type_synonym json_parse = "string \<Rightarrow> js_error + jsval"

text \<open>1) the structured payload of the response.\<close>

definition from_learned :: "jsval \<Rightarrow> jsval option" where
  "from_learned res =
     (if truthy res \<and> isArray (get_prop res ''learned'') \<and>
         0 < length (elems (get_prop res ''learned''))
      then Some (elems (get_prop res ''learned'') ! 0)
      else None)"

text \<open>\<^verbatim>\<open>(res && res.reply) ? String(res.reply) : dflt\<close>\<close>

definition reply_text :: "jsval \<Rightarrow> string \<Rightarrow> string" where
  "reply_text res dflt =
     (if truthy res \<and> truthy (get_prop res ''reply'') then ToString (get_prop res ''reply'')
      else dflt)"

text \<open>2) the tagged block of the reply text; a parse error is caught and gives nothing.\<close>

definition from_tagged :: "json_parse \<Rightarrow> string \<Rightarrow> jsval option" where
  "from_tagged parse txt =
     (case tagged_content txt of
        None \<Rightarrow> None
      | Some m1 \<Rightarrow>
          if m1 = [] then None
          else (case parse m1 of
                  Inl e \<Rightarrow> None
                | Inr arr \<Rightarrow>
                    if isArray arr \<and> 0 < length (elems arr) then Some (elems arr ! 0)
                    else None))"

text \<open>3) the pipe-delimited form of the cleaned text.\<close>

definition from_pipe :: "string \<Rightarrow> jsval option" where
  "from_pipe cleanText =
     (let parts = map trim (split_on CHR ''|'' cleanText) in
      if 4 \<le> length parts
      then Some (JObj [(''word'', JStr (parts ! 0)), (''topic'', JStr (parts ! 1)),
                       (''level'', JStr (parts ! 2)),
                       (''hint'', JStr (join '' | '' (drop 3 parts)))])
      else None)"

text \<open>4) the last resort.\<close>

definition fallback_item :: "string \<Rightarrow> jsval" where
  "fallback_item cleanText =
     JObj [(''word'', JStr ''Word''), (''topic'', JStr ''General''), (''level'', JStr ''All''),
           (''hint'', js_or (JStr cleanText) (JStr ''Start learning now!''))]"

record home_page =
  suggestion :: jsval
  toast :: "string option"
  storage :: wx_storage

definition accept :: "int \<Rightarrow> jsval \<Rightarrow> home_page \<Rightarrow> home_page" where
  "accept now item pg =
     pg\<lparr>suggestion := item, storage := saveHistoryItem now item (storage pg)\<rparr>"

text \<open>
  \<open>fetchSuggestion\<close> from the point where the response \<open>res\<close> has arrived.
\<close>

definition normalize :: "json_parse \<Rightarrow> int \<Rightarrow> jsval \<Rightarrow> home_page \<Rightarrow> home_page" where
  "normalize parse now res pg =
     (case from_learned res of
        Some item \<Rightarrow> accept now item pg
      | None \<Rightarrow>
          (let txt = reply_text res [];
               cleanText = trim (strip_tagged txt)
           in case from_tagged parse txt of
                Some item \<Rightarrow> accept now item pg
              | None \<Rightarrow>
                  (case from_pipe cleanText of
                     Some item \<Rightarrow> accept now item pg
                   | None \<Rightarrow>
                       pg\<lparr>suggestion := fallback_item cleanText,
                          toast := Some ''Daily suggestion parse failed''\<rparr>)))"

definition suggestion_message :: string where
  "suggestion_message = ''Give me one daily vocabulary suggestion: pick a random topic and level, output as: word | topic | level | one-sentence hint.''"

definition fetchSuggestion ::
  "wx_request \<Rightarrow> (jsval \<Rightarrow> jsval) \<Rightarrow> json_parse \<Rightarrow> int \<Rightarrow> jsval \<Rightarrow> home_page \<Rightarrow> home_page" where
  "fetchSuggestion wx stringify parse now sessionId pg =
     (let r = post wx stringify ''/chat''
                (JObj [(''session_id'', sessionId), (''message'', JStr suggestion_message)])
                (storage pg)
      in case outcome r of
           Resolved res \<Rightarrow> normalize parse now res (pg\<lparr>storage := store r\<rparr>)
         | Rejected e \<Rightarrow>
             pg\<lparr>suggestion := JObj [(''word'', JStr ''Word''), (''topic'', JStr ''General''),
                                    (''level'', JStr ''All''),
                                    (''hint'', JStr ''Start learning now!'')],
                storage := store r\<rparr>
         | Pending \<Rightarrow> pg\<lparr>storage := store r\<rparr>)"

section \<open>The chat page\<close>

text \<open>
  The continuation of \<open>onSend\<close> for a response \<open>res\<close>: the text handed to \<open>addBot\<close> and
  the storage after \<^verbatim>\<open>_saveHistory\<close>.
\<close>

definition onSend_then :: "(nat \<Rightarrow> int) \<Rightarrow> jsval \<Rightarrow> wx_storage \<Rightarrow> string \<times> wx_storage" where
  "onSend_then now res st =
     (let reply = reply_text res ''No reply'';
          cleaned = trim (strip_tagged reply)
      in (cleaned,
          if truthy res \<and> isArray (get_prop res ''learned'') \<and>
             0 < length (elems (get_prop res ''learned''))
          then saveHistory now (elems (get_prop res ''learned'')) st
          else st))"

section \<open>A model of the platform's JSON parser\<close>

text \<open>
  The functions above take \<^verbatim>\<open>JSON.parse\<close> as a parameter. \<open>JSON_parse\<close> is a model of it
  on the values of \<open>jsval\<close>, used to evaluate the program on concrete replies: objects,
  arrays, strings with their escapes, integers, \<^verbatim>\<open>true\<close>, \<^verbatim>\<open>false\<close> and \<^verbatim>\<open>null\<close>.
  A number with a fraction or an exponent and a \<^verbatim>\<open>\u\<close> escape of a code unit above 255
  have no value in \<open>jsval\<close> and are rejected. The first argument of \<open>parse_value\<close>
  bounds the number of nested and of successive values; \<open>JSON_parse\<close> starts it above the
  length of the input.
\<close>

definition json_ws :: "char \<Rightarrow> bool" where
  "json_ws c = (c \<in> set [CHR 0x20, CHR 0x09, CHR 0x0A, CHR 0x0D])"

definition skip_ws :: "string \<Rightarrow> string" where
  "skip_ws s = dropWhile json_ws s"

definition is_digit :: "char \<Rightarrow> bool" where
  "is_digit c = (c \<in> set ''0123456789'')"

definition digit_val :: "char \<Rightarrow> nat" where
  "digit_val c = of_char c - 48"

definition hex_val :: "char \<Rightarrow> nat option" where
  "hex_val c =
     (if c \<in> set ''0123456789'' then Some (of_char c - 48)
      else if c \<in> set ''abcdef'' then Some (of_char c - 87)
      else if c \<in> set ''ABCDEF'' then Some (of_char c - 55)
      else None)"

definition unescape :: "char \<Rightarrow> char option" where
  "unescape e =
     (if e = CHR 0x22 \<or> e = CHR 0x5C \<or> e = CHR ''/'' then Some e
      else if e = CHR ''b'' then Some (CHR 0x08)
      else if e = CHR ''f'' then Some (CHR 0x0C)
      else if e = CHR ''n'' then Some (CHR 0x0A)
      else if e = CHR ''r'' then Some (CHR 0x0D)
      else if e = CHR ''t'' then Some (CHR 0x09)
      else None)"

definition push_char :: "char \<Rightarrow> (string \<times> string) option \<Rightarrow> (string \<times> string) option" where
  "push_char c r = (case r of None \<Rightarrow> None | Some (t, rest) \<Rightarrow> Some (c # t, rest))"

text \<open>The characters of a string literal after its opening quote, and what follows it.\<close>

fun parse_chars :: "string \<Rightarrow> (string \<times> string) option" where
  "parse_chars [] = None"
| "parse_chars (c # cs) =
     (if c = CHR 0x22 then Some ([], cs)
      else if c = CHR 0x5C then
        (case cs of
           [] \<Rightarrow> None
         | e # r \<Rightarrow>
             if e = CHR ''u'' then
               (case r of
                  h1 # h2 # h3 # h4 # r' \<Rightarrow>
                    (case (hex_val h1, hex_val h2, hex_val h3, hex_val h4) of
                       (Some a, Some b, Some c', Some d) \<Rightarrow>
                         if a = 0 \<and> b = 0 then push_char (char_of (16 * c' + d)) (parse_chars r')
                         else None
                     | _ \<Rightarrow> None)
                | _ \<Rightarrow> None)
             else (case unescape e of
                     None \<Rightarrow> None
                   | Some x \<Rightarrow> push_char x (parse_chars r)))
      else if (of_char c :: nat) < 32 then None
      else push_char c (parse_chars cs))"

definition parse_number :: "string \<Rightarrow> (jsval \<times> string) option" where
  "parse_number s =
     (let neg = (s \<noteq> [] \<and> hd s = CHR ''-'');
          s1 = (if neg then tl s else s);
          ds = takeWhile is_digit s1;
          r = dropWhile is_digit s1
      in if ds = [] \<or> (hd ds = CHR ''0'' \<and> 1 < length ds) then None
         else if r \<noteq> [] \<and> hd r \<in> set ''.eE'' then None
         else Some (JNum ((if neg then - 1 else 1) *
                      int (foldl (\<lambda>a c. 10 * a + digit_val c) 0 ds)), r))"

fun parse_value :: "nat \<Rightarrow> string \<Rightarrow> (jsval \<times> string) option"
  and parse_elements :: "nat \<Rightarrow> jsval list \<Rightarrow> string \<Rightarrow> (jsval \<times> string) option"
  and parse_members :: "nat \<Rightarrow> (string \<times> jsval) list \<Rightarrow> string \<Rightarrow> (jsval \<times> string) option"
where
  "parse_value 0 s = None"
| "parse_value (Suc n) s =
     (case skip_ws s of
        [] \<Rightarrow> None
      | c # cs \<Rightarrow>
          if c = CHR ''['' then
            (if take 1 (skip_ws cs) = '']'' then Some (JArr [], drop 1 (skip_ws cs))
             else parse_elements n [] cs)
          else if c = CHR ''{'' then
            (if take 1 (skip_ws cs) = ''}'' then Some (JObj [], drop 1 (skip_ws cs))
             else parse_members n [] cs)
          else if c = CHR 0x22 then
            (case parse_chars cs of None \<Rightarrow> None | Some (t, r) \<Rightarrow> Some (JStr t, r))
          else if take 4 (c # cs) = ''true'' then Some (JBool True, drop 4 (c # cs))
          else if take 5 (c # cs) = ''false'' then Some (JBool False, drop 5 (c # cs))
          else if take 4 (c # cs) = ''null'' then Some (JNull, drop 4 (c # cs))
          else parse_number (c # cs))"
| "parse_elements 0 acc s = None"
| "parse_elements (Suc n) acc s =
     (case parse_value n s of
        None \<Rightarrow> None
      | Some (v, r) \<Rightarrow>
          if take 1 (skip_ws r) = '','' then parse_elements n (acc @ [v]) (drop 1 (skip_ws r))
          else if take 1 (skip_ws r) = '']'' then Some (JArr (acc @ [v]), drop 1 (skip_ws r))
          else None)"
| "parse_members 0 acc s = None"
| "parse_members (Suc n) acc s =
     (if take 1 (skip_ws s) = [CHR 0x22] then
        (case parse_chars (drop 1 (skip_ws s)) of
           None \<Rightarrow> None
         | Some (k, r) \<Rightarrow>
             if take 1 (skip_ws r) = '':'' then
               (case parse_value n (drop 1 (skip_ws r)) of
                  None \<Rightarrow> None
                | Some (v, r') \<Rightarrow>
                    if take 1 (skip_ws r') = '','' then
                      parse_members n (set_prop k v acc) (drop 1 (skip_ws r'))
                    else if take 1 (skip_ws r') = ''}'' then
                      Some (JObj (set_prop k v acc), drop 1 (skip_ws r'))
                    else None)
             else None)
      else None)"

definition JSON_parse :: "string \<Rightarrow> js_error + jsval" where
  "JSON_parse s =
     (case parse_value (Suc (length s)) s of
        None \<Rightarrow> Inl SyntaxError
      | Some (v, r) \<Rightarrow> if skip_ws r = [] then Inr v else Inl SyntaxError)"

section \<open>Properties used in the statements\<close>

definition empty_storage :: wx_storage where
  "empty_storage = \<lparr>entries = Map.empty, get_throws = False, set_throws = False\<rparr>"

definition pool_store :: "wx_storage \<Rightarrow> bool" where
  "pool_store st =
     (case entries st ''BASE_URL'' of None \<Rightarrow> True | Some v \<Rightarrow> v \<in> JStr ` set DEFAULTS)"

text \<open>The persisted history log, as a list (empty when the entry is absent or no array).\<close>

definition history :: "wx_storage \<Rightarrow> jsval list" where
  "history st = (case entries st ''learning_history'' of Some (JArr xs) \<Rightarrow> xs | _ \<Rightarrow> [])"

definition log_is_list :: "wx_storage \<Rightarrow> bool" where
  "log_is_list st =
     (case entries st ''learning_history'' of None \<Rightarrow> True | Some v \<Rightarrow> isArray v)"

definition capped :: "wx_storage \<Rightarrow> bool" where
  "capped st = (length (history st) \<le> 200)"

text \<open>A sequence of suggestion-flow insertions, each with its clock reading.\<close>

fun saveHistoryItems :: "(int \<times> jsval) list \<Rightarrow> wx_storage \<Rightarrow> wx_storage" where
  "saveHistoryItems [] st = st"
| "saveHistoryItems ((t, item) # rest) st = saveHistoryItems rest (saveHistoryItem t item st)"

text \<open>
  A reply text laid out as plain stretches and tagged blocks, none of which contains the
  character \<^verbatim>\<open><\<close>.
\<close>

datatype segment = Plain string | Block string

fun render :: "segment list \<Rightarrow> string" where
  "render [] = []"
| "render (Plain s # segs) = s @ render segs"
| "render (Block b # segs) = open_tag @ b @ close_tag @ render segs"

fun plain_text :: "segment list \<Rightarrow> string" where
  "plain_text [] = []"
| "plain_text (Plain s # segs) = s @ plain_text segs"
| "plain_text (Block b # segs) = plain_text segs"

fun no_lt :: "segment \<Rightarrow> bool" where
  "no_lt (Plain s) = (CHR ''<'' \<notin> set s)"
| "no_lt (Block b) = (CHR ''<'' \<notin> set b)"

text \<open>
  A layout in which no plain stretch contains an opening tag, no block body contains a
  closing tag, and every plain stretch is followed by a block or ends the text.
\<close>

fun tidy :: "segment list \<Rightarrow> bool" where
  "tidy [] = True"
| "tidy (Block b # segs) = (find_sub close_tag b = None \<and> tidy segs)"
| "tidy [Plain s] = (find_sub open_tag s = None)"
| "tidy (Plain s # Block b # segs) = (find_sub open_tag s = None \<and> tidy (Block b # segs))"
| "tidy (Plain s # Plain s' # segs) = False"


section \<open>The endpoint store and the executor\<close>

lemma alternate_in_pool: "alternate first = Inr alt \<Longrightarrow> alt \<in> JStr ` set DEFAULTS"
  by (auto simp: alternate_def DEFAULTS_def split: sum.splits if_splits)

lemma alternate_neq: "alternate first = Inr alt \<Longrightarrow> alt \<noteq> first"
  by (cases first) (auto simp: alternate_def DEFAULTS_def split: sum.splits if_splits)

lemma alternate_D0: "alternate (JStr (DEFAULTS ! 0)) = Inr (JStr (DEFAULTS ! 1))"
  by (simp add: alternate_def DEFAULTS_def)

lemma alternate_D1: "alternate (JStr (DEFAULTS ! 1)) = Inr (JStr (DEFAULTS ! 0))"
  by (simp add: alternate_def DEFAULTS_def)

lemma first_truthy: "truthy (getStoredBaseUrl st)"
  by (auto simp: getStoredBaseUrl_def js_or_def DEFAULTS_def split: sum.splits)

lemma setBaseUrl_entries:
  "\<not> set_throws st \<Longrightarrow> entries (setBaseUrl u st) ''BASE_URL'' = Some u"
  by (simp add: setBaseUrl_def setStorageSync_def)

lemma setBaseUrl_throws: "set_throws st \<Longrightarrow> setBaseUrl u st = st"
  by (simp add: setBaseUrl_def setStorageSync_def)

lemma setBaseUrl_flags [simp]:
  "set_throws (setBaseUrl u st) = set_throws st" "get_throws (setBaseUrl u st) = get_throws st"
  by (simp_all add: setBaseUrl_def setStorageSync_def)

lemma withFallback_rejected:
  assumes "alternate (getStoredBaseUrl st) = Inr alt"
    and "requestFn (getStoredBaseUrl st) = Rejected e1"
  shows "withFallback requestFn st =
           \<lparr>outcome = requestFn alt, store = setBaseUrl alt st,
            trace = [Request (getStoredBaseUrl st), Store alt, Request alt]\<rparr>"
  using assms by (simp add: withFallback_def)

lemma withFallback_resolved:
  assumes "alternate (getStoredBaseUrl st) = Inr alt"
    and "requestFn (getStoredBaseUrl st) = Resolved r"
  shows "withFallback requestFn st =
           \<lparr>outcome = Resolved r, store = st, trace = [Request (getStoredBaseUrl st)]\<rparr>"
  using assms by (simp add: withFallback_def)

lemma withFallback_pending:
  assumes "alternate (getStoredBaseUrl st) = Inr alt"
    and "requestFn (getStoredBaseUrl st) = Pending"
  shows "withFallback requestFn st =
           \<lparr>outcome = Pending, store = st, trace = [Request (getStoredBaseUrl st)]\<rparr>"
  using assms by (simp add: withFallback_def)

lemma withFallback_no_method:
  assumes "alternate (getStoredBaseUrl st) = Inl e"
  shows "withFallback requestFn st = \<lparr>outcome = Rejected e, store = st, trace = []\<rparr>"
  using assms by (simp add: withFallback_def)

lemma attempt_base: "attempt wx stringify method path body b = Resolved r \<Longrightarrow> base r = b"
  by (auto simp: attempt_def split: wx_callback.splits if_splits)

lemma attempt_resolved_iff:
  "(\<exists>r. attempt wx stringify method path body b = Resolved r) \<longleftrightarrow>
   (\<exists>s d. wx method (ToString b @ path) body = Success s d \<and> 200 \<le> s \<and> s < 300)"
  by (auto simp: attempt_def split: wx_callback.splits if_splits)

lemma attempt_2xx:
  "wx method (ToString b @ path) body = Success s d \<Longrightarrow> 200 \<le> s \<Longrightarrow> s < 300 \<Longrightarrow>
   attempt wx stringify method path body b = Resolved \<lparr>data = d, base = b\<rparr>"
  by (simp add: attempt_def)

lemma attempt_other_status:
  "wx method (ToString b @ path) body = Success s d \<Longrightarrow> \<not> (200 \<le> s \<and> s < 300) \<Longrightarrow>
   attempt wx stringify method path body b =
     Rejected (Error (''HTTP '' @ show_int s @ '': '' @
       (case d of JStr t \<Rightarrow> t | _ \<Rightarrow> ToString (stringify d))))"
  by (cases d) (auto simp: attempt_def)

lemma attempt_rejected_iff:
  "(\<exists>e. attempt wx stringify method path body b = Rejected e) \<longleftrightarrow>
   (\<exists>err. wx method (ToString b @ path) body = Fail err) \<or>
   (\<exists>s d. wx method (ToString b @ path) body = Success s d \<and> \<not> (200 \<le> s \<and> s < 300))"
  by (auto simp: attempt_def split: wx_callback.splits if_splits)

text \<open>
  Claim C1. When the first attempt, made against the endpoint read from the store, is
  rejected (by the transport or for a status outside 200..299), the executor calls
  \<open>setBaseUrl\<close> with the alternate and then makes exactly one more attempt, against that
  alternate: a member of the pool, different from the first endpoint, and the other
  default when the first endpoint is a default. The result is the retry's result; when
  the retry is rejected too, the operation is rejected with the retry's error, and the
  stored endpoint is the alternate (the write is best-effort: it is lost only when the
  storage itself throws). \<open>post\<close> and \<open>get\<close> are \<open>persist_base\<close> of \<open>wxRequest\<close>. An
  attempt is rejected exactly when the transport fails or reports a status outside
  200..299.
\<close>
theorem failed_first_attempt_retries_once_on_alternate:
  assumes "alternate (getStoredBaseUrl st) = Inr alt"
    and "attempt wx stringify method path body (getStoredBaseUrl st) = Rejected e1"
  shows "alt \<in> JStr ` set DEFAULTS \<and> alt \<noteq> getStoredBaseUrl st \<and>
         (getStoredBaseUrl st = JStr (DEFAULTS ! 0) \<longrightarrow> alt = JStr (DEFAULTS ! 1)) \<and>
         (getStoredBaseUrl st = JStr (DEFAULTS ! 1) \<longrightarrow> alt = JStr (DEFAULTS ! 0)) \<and>
         trace (wxRequest wx stringify method path body st) =
           [Request (getStoredBaseUrl st), Store alt, Request alt] \<and>
         outcome (wxRequest wx stringify method path body st) =
           attempt wx stringify method path body alt \<and>
         store (wxRequest wx stringify method path body st) = setBaseUrl alt st \<and>
         (\<not> set_throws st \<longrightarrow>
            entries (store (wxRequest wx stringify method path body st)) ''BASE_URL'' = Some alt) \<and>
         (\<forall>e2. attempt wx stringify method path body alt = Rejected e2 \<longrightarrow>
            persist_base (wxRequest wx stringify method path body st) =
              \<lparr>outcome = Rejected e2, store = setBaseUrl alt st,
               trace = [Request (getStoredBaseUrl st), Store alt, Request alt]\<rparr>) \<and>
         ((\<exists>e. attempt wx stringify method path body b = Rejected e) \<longleftrightarrow>
            (\<exists>err. wx method (ToString b @ path) body = Fail err) \<or>
            (\<exists>s d. wx method (ToString b @ path) body = Success s d \<and>
                   \<not> (200 \<le> s \<and> s < 300)))"
proof -
  let ?r = "wxRequest wx stringify method path body st"
  have r: "?r = \<lparr>outcome = attempt wx stringify method path body alt, store = setBaseUrl alt st,
            trace = [Request (getStoredBaseUrl st), Store alt, Request alt]\<rparr>"
    unfolding wxRequest_def using assms by (rule withFallback_rejected)
  have other0: "getStoredBaseUrl st = JStr (DEFAULTS ! 0) \<longrightarrow> alt = JStr (DEFAULTS ! 1)"
    using assms(1) alternate_D0 by auto
  have other1: "getStoredBaseUrl st = JStr (DEFAULTS ! 1) \<longrightarrow> alt = JStr (DEFAULTS ! 0)"
    using assms(1) alternate_D1 by auto
  have persisted: "\<not> set_throws st \<longrightarrow> entries (store ?r) ''BASE_URL'' = Some alt"
    by (simp add: r setBaseUrl_entries)
  have both: "\<forall>e2. attempt wx stringify method path body alt = Rejected e2 \<longrightarrow>
            persist_base ?r =
              \<lparr>outcome = Rejected e2, store = setBaseUrl alt st,
               trace = [Request (getStoredBaseUrl st), Store alt, Request alt]\<rparr>"
    by (simp add: r persist_base_def)
  have any: "(\<exists>e. attempt wx stringify method path body b = Rejected e) \<longleftrightarrow>
            (\<exists>err. wx method (ToString b @ path) body = Fail err) \<or>
            (\<exists>s d. wx method (ToString b @ path) body = Success s d \<and>
                   \<not> (200 \<le> s \<and> s < 300))"
    by (rule attempt_rejected_iff)
  have tr: "trace ?r = [Request (getStoredBaseUrl st), Store alt, Request alt]"
    and out: "outcome ?r = attempt wx stringify method path body alt"
    and sto: "store ?r = setBaseUrl alt st"
    by (simp_all add: r)
  from alternate_in_pool [OF assms(1)] alternate_neq [OF assms(1)] other0 other1 tr out sto
    persisted both any
  show ?thesis by (intro conjI)
qed


theorem failed_first_attempt_retries_once_on_alternate_witness:
  "alternate (getStoredBaseUrl empty_storage) = Inr (JStr ''http://localhost:8000'') \<and>
   attempt (\<lambda>m u b. Fail (JStr ''timeout'')) (\<lambda>v. JUndefined) ''POST'' ''/chat'' JNull
     (getStoredBaseUrl empty_storage) = Rejected (Thrown (JStr ''timeout'')) \<and>
   post (\<lambda>m u b. Fail (JStr ''timeout'')) (\<lambda>v. JUndefined) ''/chat'' JNull empty_storage =
     \<lparr>outcome = Rejected (Thrown (JStr ''timeout'')),
      store = empty_storage\<lparr>entries := [''BASE_URL'' \<mapsto> JStr ''http://localhost:8000'']\<rparr>,
      trace = [Request (JStr ''http://127.0.0.1:8000''), Store (JStr ''http://localhost:8000''),
               Request (JStr ''http://localhost:8000'')]\<rparr>"
proof -
  let ?wx = "\<lambda>m u b. Fail (JStr ''timeout'')" and ?sf = "\<lambda>v. JUndefined"
  have first: "getStoredBaseUrl empty_storage = JStr ''http://127.0.0.1:8000''"
    by (simp add: getStoredBaseUrl_def getStorageSync_def empty_storage_def js_or_def DEFAULTS_def)
  have h1: "alternate (getStoredBaseUrl empty_storage) = Inr (JStr ''http://localhost:8000'')"
    by (simp add: first alternate_def DEFAULTS_def)
  have h2: "attempt ?wx ?sf ''POST'' ''/chat'' JNull (getStoredBaseUrl empty_storage) =
              Rejected (Thrown (JStr ''timeout''))"
    by (simp add: attempt_def)
  have h3: "attempt ?wx ?sf ''POST'' ''/chat'' JNull (JStr ''http://localhost:8000'') =
              Rejected (Thrown (JStr ''timeout''))"
    by (simp add: attempt_def)
  have st: "setBaseUrl (JStr ''http://localhost:8000'') empty_storage =
              empty_storage\<lparr>entries := [''BASE_URL'' \<mapsto> JStr ''http://localhost:8000'']\<rparr>"
    by (simp add: setBaseUrl_def setStorageSync_def empty_storage_def)
  show ?thesis
    using failed_first_attempt_retries_once_on_alternate [OF h1 h2] h1 h2 h3
    by (simp add: post_def first st)
qed

text \<open>
  Claim C10. Reading the endpoint gives the first default when the read throws, when the
  key is absent and for every falsy stored value, the empty string among them; the value
  read is never the empty string, and no attempt is made against the empty string.
\<close>
theorem falsy_stored_endpoint_reads_as_first_default:
  "((get_throws st \<or> entries st ''BASE_URL'' = None \<or>
      (\<exists>v. entries st ''BASE_URL'' = Some v \<and> \<not> truthy v)) \<longrightarrow>
      getStoredBaseUrl st = JStr ''http://127.0.0.1:8000'') \<and>
   getStoredBaseUrl st \<noteq> JStr [] \<and>
   Request (JStr []) \<notin> set (trace (withFallback requestFn st))"
proof -
  have a: "(get_throws st \<or> entries st ''BASE_URL'' = None \<or>
      (\<exists>v. entries st ''BASE_URL'' = Some v \<and> \<not> truthy v)) \<longrightarrow>
      getStoredBaseUrl st = JStr ''http://127.0.0.1:8000''"
    by (auto simp: getStoredBaseUrl_def getStorageSync_def js_or_def DEFAULTS_def)
  have b: "getStoredBaseUrl st \<noteq> JStr []"
    using first_truthy [of st] by auto
  have c: "Request (JStr []) \<notin> set (trace (withFallback requestFn st))"
  proof (cases "alternate (getStoredBaseUrl st)")
    case (Inl e)
    then show ?thesis by (simp add: withFallback_no_method)
  next
    case (Inr alt)
    have "alt \<noteq> JStr []"
      using alternate_in_pool [OF Inr] by (auto simp: DEFAULTS_def)
    with b Inr show ?thesis
      by (cases "requestFn (getStoredBaseUrl st)")
        (simp_all add: withFallback_resolved withFallback_rejected withFallback_pending)
  qed
  from a b c show ?thesis by blast
qed

theorem falsy_stored_endpoint_reads_as_first_default_witness:
  "entries (empty_storage\<lparr>entries := [''BASE_URL'' \<mapsto> JStr []]\<rparr>) ''BASE_URL'' = Some (JStr []) \<and>
   \<not> truthy (JStr []) \<and>
   getStoredBaseUrl (empty_storage\<lparr>entries := [''BASE_URL'' \<mapsto> JStr []]\<rparr>) =
     JStr ''http://127.0.0.1:8000''"
  using falsy_stored_endpoint_reads_as_first_default
    [of "empty_storage\<lparr>entries := [''BASE_URL'' \<mapsto> JStr []]\<rparr>" "\<lambda>b. Resolved b"]
  by simp

lemma alternate_truthy: "alternate first = Inr alt \<Longrightarrow> truthy alt"
  by (auto simp: alternate_def DEFAULTS_def split: sum.splits if_splits)

lemma withFallback_resolved_by:
  assumes "outcome (withFallback requestFn st) = Resolved r"
  shows "\<exists>b. Request b \<in> set (trace (withFallback requestFn st)) \<and> requestFn b = Resolved r \<and>
             truthy b"
proof (cases "alternate (getStoredBaseUrl st)")
  case (Inl e)
  with assms show ?thesis by (simp add: withFallback_no_method)
next
  case (Inr alt)
  show ?thesis
  proof (cases "requestFn (getStoredBaseUrl st)")
    case (Resolved r')
    with Inr assms first_truthy [of st] show ?thesis
      by (auto simp: withFallback_resolved)
  next
    case (Rejected e)
    with Inr assms alternate_truthy [OF Inr] show ?thesis
      by (auto simp: withFallback_rejected)
  next
    case Pending
    with Inr assms show ?thesis by (simp add: withFallback_pending)
  qed
qed

lemma persist_base_resolved:
  "outcome r = Resolved res \<Longrightarrow> truthy (base res) \<Longrightarrow>
   persist_base r = \<lparr>outcome = Resolved (data res), store = setBaseUrl (base res) (store r),
                     trace = trace r @ [Store (base res)]\<rparr>"
  by (simp add: persist_base_def)

lemma persist_base_outcome:
  "outcome (persist_base r) = Resolved d \<Longrightarrow> \<exists>res. outcome r = Resolved res \<and> data res = d"
  by (auto simp: persist_base_def split: promise.splits if_splits)

lemma post_resolved_by:
  assumes "outcome (post wx stringify path body st) = Resolved d"
  shows "\<exists>b. Request b \<in> set (trace (wxRequest wx stringify ''POST'' path body st)) \<and>
           attempt wx stringify ''POST'' path body b = Resolved \<lparr>data = d, base = b\<rparr> \<and>
           post wx stringify path body st =
             \<lparr>outcome = Resolved d,
              store = setBaseUrl b (store (wxRequest wx stringify ''POST'' path body st)),
              trace = trace (wxRequest wx stringify ''POST'' path body st) @ [Store b]\<rparr> \<and>
           (\<not> set_throws st \<longrightarrow>
              entries (store (post wx stringify path body st)) ''BASE_URL'' = Some b)"
proof -
  let ?r = "wxRequest wx stringify ''POST'' path body st"
  from assms obtain res where res: "outcome ?r = Resolved res" "data res = d"
    unfolding post_def by (blast dest: persist_base_outcome)
  from res(1) obtain b where b: "Request b \<in> set (trace ?r)"
      "attempt wx stringify ''POST'' path body b = Resolved res" "truthy b"
    unfolding wxRequest_def by (blast dest: withFallback_resolved_by)
  have base: "base res = b" using b(2) by (rule attempt_base)
  have res_eq: "res = \<lparr>data = d, base = b\<rparr>" using res(2) base by simp
  have p: "post wx stringify path body st =
             \<lparr>outcome = Resolved d, store = setBaseUrl b (store ?r), trace = trace ?r @ [Store b]\<rparr>"
    unfolding post_def using persist_base_resolved [OF res(1)] b(3) base res(2) by simp
  have flags: "set_throws (store ?r) = set_throws st"
    unfolding wxRequest_def withFallback_def
    by (simp add: Let_def split: sum.splits promise.splits)
  have "\<not> set_throws st \<longrightarrow> entries (store (post wx stringify path body st)) ''BASE_URL'' = Some b"
    using flags by (simp add: p setBaseUrl_entries)
  with b(1) b(2) res_eq p show ?thesis by blast
qed

lemma post_first_ok:
  assumes alt: "alternate (getStoredBaseUrl st) = Inr alt"
    and ok: "wx ''POST'' (ToString (getStoredBaseUrl st) @ path) body = Success s d"
       "200 \<le> s" "s < 300"
  shows "post wx stringify path body st =
           \<lparr>outcome = Resolved d, store = setBaseUrl (getStoredBaseUrl st) st,
            trace = [Request (getStoredBaseUrl st), Store (getStoredBaseUrl st)]\<rparr>"
proof -
  have "attempt wx stringify ''POST'' path body (getStoredBaseUrl st) =
          Resolved \<lparr>data = d, base = getStoredBaseUrl st\<rparr>"
    using ok by (rule attempt_2xx)
  then have "wxRequest wx stringify ''POST'' path body st =
      \<lparr>outcome = Resolved \<lparr>data = d, base = getStoredBaseUrl st\<rparr>, store = st,
       trace = [Request (getStoredBaseUrl st)]\<rparr>"
    unfolding wxRequest_def using alt by (simp add: withFallback_resolved)
  then show ?thesis
    by (simp add: post_def persist_base_def first_truthy)
qed

lemma post_retry_ok:
  assumes alt: "alternate (getStoredBaseUrl st) = Inr alt"
    and bad: "attempt wx stringify ''POST'' path body (getStoredBaseUrl st) = Rejected e1"
    and ok: "wx ''POST'' (ToString alt @ path) body = Success s d" "200 \<le> s" "s < 300"
  shows "post wx stringify path body st =
           \<lparr>outcome = Resolved d, store = setBaseUrl alt (setBaseUrl alt st),
            trace = [Request (getStoredBaseUrl st), Store alt, Request alt, Store alt]\<rparr>"
proof -
  have "attempt wx stringify ''POST'' path body alt = Resolved \<lparr>data = d, base = alt\<rparr>"
    using ok by (rule attempt_2xx)
  then have "wxRequest wx stringify ''POST'' path body st =
      \<lparr>outcome = Resolved \<lparr>data = d, base = alt\<rparr>, store = setBaseUrl alt st,
       trace = [Request (getStoredBaseUrl st), Store alt, Request alt]\<rparr>"
    unfolding wxRequest_def using alt bad by (simp add: withFallback_rejected)
  then show ?thesis
    by (simp add: post_def persist_base_def alternate_truthy [OF alt])
qed

lemma get_resolved_by:
  assumes "outcome (get wx stringify path st) = Resolved d"
  shows "\<exists>b. Request b \<in> set (trace (wxRequest wx stringify ''GET'' path JUndefined st)) \<and>
           attempt wx stringify ''GET'' path JUndefined b = Resolved \<lparr>data = d, base = b\<rparr> \<and>
           get wx stringify path st =
             \<lparr>outcome = Resolved d,
              store = setBaseUrl b (store (wxRequest wx stringify ''GET'' path JUndefined st)),
              trace = trace (wxRequest wx stringify ''GET'' path JUndefined st) @ [Store b]\<rparr> \<and>
           (\<not> set_throws st \<longrightarrow>
              entries (store (get wx stringify path st)) ''BASE_URL'' = Some b)"
proof -
  let ?r = "wxRequest wx stringify ''GET'' path JUndefined st"
  from assms obtain res where res: "outcome ?r = Resolved res" "data res = d"
    unfolding get_def by (blast dest: persist_base_outcome)
  from res(1) obtain b where b: "Request b \<in> set (trace ?r)"
      "attempt wx stringify ''GET'' path JUndefined b = Resolved res" "truthy b"
    unfolding wxRequest_def by (blast dest: withFallback_resolved_by)
  have base: "base res = b" using b(2) by (rule attempt_base)
  have res_eq: "res = \<lparr>data = d, base = b\<rparr>" using res(2) base by simp
  have p: "get wx stringify path st =
             \<lparr>outcome = Resolved d, store = setBaseUrl b (store ?r), trace = trace ?r @ [Store b]\<rparr>"
    unfolding get_def using persist_base_resolved [OF res(1)] b(3) base res(2) by simp
  have flags: "set_throws (store ?r) = set_throws st"
    unfolding wxRequest_def withFallback_def
    by (simp add: Let_def split: sum.splits promise.splits)
  have "\<not> set_throws st \<longrightarrow> entries (store (get wx stringify path st)) ''BASE_URL'' = Some b"
    using flags by (simp add: p setBaseUrl_entries)
  with b(1) b(2) res_eq p show ?thesis by blast
qed

lemma get_first_ok:
  assumes alt: "alternate (getStoredBaseUrl st) = Inr alt"
    and ok: "wx ''GET'' (ToString (getStoredBaseUrl st) @ path) JUndefined = Success s d"
       "200 \<le> s" "s < 300"
  shows "get wx stringify path st =
           \<lparr>outcome = Resolved d, store = setBaseUrl (getStoredBaseUrl st) st,
            trace = [Request (getStoredBaseUrl st), Store (getStoredBaseUrl st)]\<rparr>"
proof -
  have "attempt wx stringify ''GET'' path JUndefined (getStoredBaseUrl st) =
          Resolved \<lparr>data = d, base = getStoredBaseUrl st\<rparr>"
    using ok by (rule attempt_2xx)
  then have "wxRequest wx stringify ''GET'' path JUndefined st =
      \<lparr>outcome = Resolved \<lparr>data = d, base = getStoredBaseUrl st\<rparr>, store = st,
       trace = [Request (getStoredBaseUrl st)]\<rparr>"
    unfolding wxRequest_def using alt by (simp add: withFallback_resolved)
  then show ?thesis
    by (simp add: get_def persist_base_def first_truthy)
qed

lemma get_retry_ok:
  assumes alt: "alternate (getStoredBaseUrl st) = Inr alt"
    and bad: "attempt wx stringify ''GET'' path JUndefined (getStoredBaseUrl st) = Rejected e1"
    and ok: "wx ''GET'' (ToString alt @ path) JUndefined = Success s d" "200 \<le> s" "s < 300"
  shows "get wx stringify path st =
           \<lparr>outcome = Resolved d, store = setBaseUrl alt (setBaseUrl alt st),
            trace = [Request (getStoredBaseUrl st), Store alt, Request alt, Store alt]\<rparr>"
proof -
  have "attempt wx stringify ''GET'' path JUndefined alt = Resolved \<lparr>data = d, base = alt\<rparr>"
    using ok by (rule attempt_2xx)
  then have "wxRequest wx stringify ''GET'' path JUndefined st =
      \<lparr>outcome = Resolved \<lparr>data = d, base = alt\<rparr>, store = setBaseUrl alt st,
       trace = [Request (getStoredBaseUrl st), Store alt, Request alt]\<rparr>"
    unfolding wxRequest_def using alt bad by (simp add: withFallback_rejected)
  then show ?thesis
    by (simp add: get_def persist_base_def alternate_truthy [OF alt])
qed

lemma setBaseUrl_twice_entries:
  "\<not> set_throws st \<Longrightarrow> entries (setBaseUrl u (setBaseUrl v st)) ''BASE_URL'' = Some u"
  by (simp add: setBaseUrl_entries)

text \<open>
  Claim C2. An attempt resolves exactly when the transport reports a status in 200..299;
  any other status rejects with the message \<^verbatim>\<open>HTTP <status>: <body>\<close>, the body as it
  is when it is a string and stringified otherwise. When the first attempt succeeds, and
  when it fails and the retry succeeds, \<open>post\<close> calls \<open>setBaseUrl\<close> with the endpoint that
  succeeded and resolves with the response body: in the second case the stored endpoint is
  the alternate and the body is the alternate's. Conversely \<open>post\<close> resolves only with the
  body of a successful attempt, whose endpoint it persists. \<open>get\<close> does the same with the
  method \<^verbatim>\<open>GET\<close> and no body.
\<close>

theorem attempt_succeeds_on_2xx_and_success_is_persisted:
  "((\<exists>r. attempt wx stringify method path body b = Resolved r) \<longleftrightarrow>
      (\<exists>s d. wx method (ToString b @ path) body = Success s d \<and> 200 \<le> s \<and> s < 300)) \<and>
   (\<forall>s d. wx method (ToString b @ path) body = Success s d \<and> \<not> (200 \<le> s \<and> s < 300) \<longrightarrow>
      attempt wx stringify method path body b =
        Rejected (Error (''HTTP '' @ show_int s @ '': '' @
          (case d of JStr t \<Rightarrow> t | _ \<Rightarrow> ToString (stringify d))))) \<and>
   (\<forall>alt s d. alternate (getStoredBaseUrl st) = Inr alt \<and>
      wx ''POST'' (ToString (getStoredBaseUrl st) @ path) body = Success s d \<and>
      200 \<le> s \<and> s < 300 \<longrightarrow>
      post wx stringify path body st =
        \<lparr>outcome = Resolved d, store = setBaseUrl (getStoredBaseUrl st) st,
         trace = [Request (getStoredBaseUrl st), Store (getStoredBaseUrl st)]\<rparr> \<and>
      (\<not> set_throws st \<longrightarrow>
         entries (store (post wx stringify path body st)) ''BASE_URL'' =
           Some (getStoredBaseUrl st))) \<and>
   (\<forall>alt e1 s d. alternate (getStoredBaseUrl st) = Inr alt \<and>
      attempt wx stringify ''POST'' path body (getStoredBaseUrl st) = Rejected e1 \<and>
      wx ''POST'' (ToString alt @ path) body = Success s d \<and> 200 \<le> s \<and> s < 300 \<longrightarrow>
      post wx stringify path body st =
        \<lparr>outcome = Resolved d, store = setBaseUrl alt (setBaseUrl alt st),
         trace = [Request (getStoredBaseUrl st), Store alt, Request alt, Store alt]\<rparr> \<and>
      (\<not> set_throws st \<longrightarrow>
         entries (store (post wx stringify path body st)) ''BASE_URL'' = Some alt)) \<and>
   (\<forall>d. outcome (post wx stringify path body st) = Resolved d \<longrightarrow>
      (\<exists>b'. Request b' \<in> set (trace (wxRequest wx stringify ''POST'' path body st)) \<and>
         attempt wx stringify ''POST'' path body b' = Resolved \<lparr>data = d, base = b'\<rparr> \<and>
         post wx stringify path body st =
           \<lparr>outcome = Resolved d,
            store = setBaseUrl b' (store (wxRequest wx stringify ''POST'' path body st)),
            trace = trace (wxRequest wx stringify ''POST'' path body st) @ [Store b']\<rparr> \<and>
         (\<not> set_throws st \<longrightarrow>
            entries (store (post wx stringify path body st)) ''BASE_URL'' = Some b'))) \<and>
   (\<forall>alt s d. alternate (getStoredBaseUrl st) = Inr alt \<and>
      wx ''GET'' (ToString (getStoredBaseUrl st) @ path) JUndefined = Success s d \<and>
      200 \<le> s \<and> s < 300 \<longrightarrow>
      get wx stringify path st =
        \<lparr>outcome = Resolved d, store = setBaseUrl (getStoredBaseUrl st) st,
         trace = [Request (getStoredBaseUrl st), Store (getStoredBaseUrl st)]\<rparr> \<and>
      (\<not> set_throws st \<longrightarrow>
         entries (store (get wx stringify path st)) ''BASE_URL'' =
           Some (getStoredBaseUrl st))) \<and>
   (\<forall>alt e1 s d. alternate (getStoredBaseUrl st) = Inr alt \<and>
      attempt wx stringify ''GET'' path JUndefined (getStoredBaseUrl st) = Rejected e1 \<and>
      wx ''GET'' (ToString alt @ path) JUndefined = Success s d \<and> 200 \<le> s \<and> s < 300 \<longrightarrow>
      get wx stringify path st =
        \<lparr>outcome = Resolved d, store = setBaseUrl alt (setBaseUrl alt st),
         trace = [Request (getStoredBaseUrl st), Store alt, Request alt, Store alt]\<rparr> \<and>
      (\<not> set_throws st \<longrightarrow>
         entries (store (get wx stringify path st)) ''BASE_URL'' = Some alt)) \<and>
   (\<forall>d. outcome (get wx stringify path st) = Resolved d \<longrightarrow>
      (\<exists>b'. Request b' \<in> set (trace (wxRequest wx stringify ''GET'' path JUndefined st)) \<and>
         attempt wx stringify ''GET'' path JUndefined b' = Resolved \<lparr>data = d, base = b'\<rparr> \<and>
         get wx stringify path st =
           \<lparr>outcome = Resolved d,
            store = setBaseUrl b' (store (wxRequest wx stringify ''GET'' path JUndefined st)),
            trace = trace (wxRequest wx stringify ''GET'' path JUndefined st) @ [Store b']\<rparr> \<and>
         (\<not> set_throws st \<longrightarrow>
            entries (store (get wx stringify path st)) ''BASE_URL'' = Some b')))"
  (is "?A \<and> ?B \<and> ?C \<and> ?D \<and> ?E \<and> ?F \<and> ?G \<and> ?H")
proof -
  have A: ?A by (rule attempt_resolved_iff)
  have B: ?B using attempt_other_status [of wx "method" b path body _ _ stringify] by blast
  have C: ?C
  proof (intro allI impI, elim conjE)
    fix alt s d
    assume h: "alternate (getStoredBaseUrl st) = Inr alt"
      "wx ''POST'' (ToString (getStoredBaseUrl st) @ path) body = Success s d" "200 \<le> s" "s < 300"
    have p: "post wx stringify path body st =
        \<lparr>outcome = Resolved d, store = setBaseUrl (getStoredBaseUrl st) st,
         trace = [Request (getStoredBaseUrl st), Store (getStoredBaseUrl st)]\<rparr>"
      using h by (rule post_first_ok)
    show "post wx stringify path body st =
        \<lparr>outcome = Resolved d, store = setBaseUrl (getStoredBaseUrl st) st,
         trace = [Request (getStoredBaseUrl st), Store (getStoredBaseUrl st)]\<rparr> \<and>
      (\<not> set_throws st \<longrightarrow>
         entries (store (post wx stringify path body st)) ''BASE_URL'' =
           Some (getStoredBaseUrl st))"
      by (simp add: p setBaseUrl_entries)
  qed
  have D: ?D
  proof (intro allI impI, elim conjE)
    fix alt e1 s d
    assume h: "alternate (getStoredBaseUrl st) = Inr alt"
      "attempt wx stringify ''POST'' path body (getStoredBaseUrl st) = Rejected e1"
      "wx ''POST'' (ToString alt @ path) body = Success s d" "200 \<le> s" "s < 300"
    have p: "post wx stringify path body st =
        \<lparr>outcome = Resolved d, store = setBaseUrl alt (setBaseUrl alt st),
         trace = [Request (getStoredBaseUrl st), Store alt, Request alt, Store alt]\<rparr>"
      using h by (rule post_retry_ok)
    show "post wx stringify path body st =
        \<lparr>outcome = Resolved d, store = setBaseUrl alt (setBaseUrl alt st),
         trace = [Request (getStoredBaseUrl st), Store alt, Request alt, Store alt]\<rparr> \<and>
      (\<not> set_throws st \<longrightarrow>
         entries (store (post wx stringify path body st)) ''BASE_URL'' = Some alt)"
      by (simp add: p setBaseUrl_entries)
  qed
  have E: ?E using post_resolved_by [of wx stringify path body st] by blast
  have F: ?F
  proof (intro allI impI, elim conjE)
    fix alt s d
    assume h: "alternate (getStoredBaseUrl st) = Inr alt"
      "wx ''GET'' (ToString (getStoredBaseUrl st) @ path) JUndefined = Success s d" "200 \<le> s" "s < 300"
    have p: "get wx stringify path st =
        \<lparr>outcome = Resolved d, store = setBaseUrl (getStoredBaseUrl st) st,
         trace = [Request (getStoredBaseUrl st), Store (getStoredBaseUrl st)]\<rparr>"
      using h by (rule get_first_ok)
    show "get wx stringify path st =
        \<lparr>outcome = Resolved d, store = setBaseUrl (getStoredBaseUrl st) st,
         trace = [Request (getStoredBaseUrl st), Store (getStoredBaseUrl st)]\<rparr> \<and>
      (\<not> set_throws st \<longrightarrow>
         entries (store (get wx stringify path st)) ''BASE_URL'' =
           Some (getStoredBaseUrl st))"
      by (simp add: p setBaseUrl_entries)
  qed
  have G: ?G
  proof (intro allI impI, elim conjE)
    fix alt e1 s d
    assume h: "alternate (getStoredBaseUrl st) = Inr alt"
      "attempt wx stringify ''GET'' path JUndefined (getStoredBaseUrl st) = Rejected e1"
      "wx ''GET'' (ToString alt @ path) JUndefined = Success s d" "200 \<le> s" "s < 300"
    have p: "get wx stringify path st =
        \<lparr>outcome = Resolved d, store = setBaseUrl alt (setBaseUrl alt st),
         trace = [Request (getStoredBaseUrl st), Store alt, Request alt, Store alt]\<rparr>"
      using h by (rule get_retry_ok)
    show "get wx stringify path st =
        \<lparr>outcome = Resolved d, store = setBaseUrl alt (setBaseUrl alt st),
         trace = [Request (getStoredBaseUrl st), Store alt, Request alt, Store alt]\<rparr> \<and>
      (\<not> set_throws st \<longrightarrow>
         entries (store (get wx stringify path st)) ''BASE_URL'' = Some alt)"
      by (simp add: p setBaseUrl_entries)
  qed
  have H: ?H using get_resolved_by [of wx stringify path st] by blast
  from A B C D E F G H show ?thesis by (intro conjI)
qed


lemma show_int_500: "show_int 500 = ''500''"
  by code_simp

theorem attempt_succeeds_on_2xx_and_success_is_persisted_witness:
  "alternate (getStoredBaseUrl empty_storage) = Inr (JStr ''http://localhost:8000'') \<and>
   (\<lambda>m u b. if m = ''POST'' \<and> u = ''http://127.0.0.1:8000/chat''
             then Success 500 (JStr ''down'')
             else Success 200 (JObj [(''reply'', JStr ''hi'')]))
     ''POST'' (ToString (getStoredBaseUrl empty_storage) @ ''/chat'') JNull =
     Success 500 (JStr ''down'') \<and> \<not> (200 \<le> (500::int) \<and> (500::int) < 300) \<and>
   attempt (\<lambda>m u b. if m = ''POST'' \<and> u = ''http://127.0.0.1:8000/chat''
             then Success 500 (JStr ''down'')
             else Success 200 (JObj [(''reply'', JStr ''hi'')])) (\<lambda>v. JUndefined)
     ''POST'' ''/chat'' JNull (getStoredBaseUrl empty_storage) =
     Rejected (Error ''HTTP 500: down'') \<and>
   (\<lambda>m u b. if m = ''POST'' \<and> u = ''http://127.0.0.1:8000/chat''
             then Success 500 (JStr ''down'')
             else Success 200 (JObj [(''reply'', JStr ''hi'')]))
     ''POST'' (ToString (JStr ''http://localhost:8000'') @ ''/chat'') JNull =
     Success 200 (JObj [(''reply'', JStr ''hi'')]) \<and> (200::int) \<le> 200 \<and> (200::int) < 300 \<and>
   post (\<lambda>m u b. if m = ''POST'' \<and> u = ''http://127.0.0.1:8000/chat''
             then Success 500 (JStr ''down'')
             else Success 200 (JObj [(''reply'', JStr ''hi'')])) (\<lambda>v. JUndefined)
     ''/chat'' JNull empty_storage =
     \<lparr>outcome = Resolved (JObj [(''reply'', JStr ''hi'')]),
      store = empty_storage\<lparr>entries := [''BASE_URL'' \<mapsto> JStr ''http://localhost:8000'']\<rparr>,
      trace = [Request (JStr ''http://127.0.0.1:8000''), Store (JStr ''http://localhost:8000''),
               Request (JStr ''http://localhost:8000''), Store (JStr ''http://localhost:8000'')]\<rparr> \<and>
   (\<lambda>m u b. if m = ''POST'' \<and> u = ''http://127.0.0.1:8000/chat''
             then Success 500 (JStr ''down'')
             else Success 200 (JObj [(''reply'', JStr ''hi'')]))
     ''GET'' (ToString (getStoredBaseUrl empty_storage) @ ''/chat'') JUndefined =
     Success 200 (JObj [(''reply'', JStr ''hi'')]) \<and>
   get (\<lambda>m u b. if m = ''POST'' \<and> u = ''http://127.0.0.1:8000/chat''
             then Success 500 (JStr ''down'')
             else Success 200 (JObj [(''reply'', JStr ''hi'')])) (\<lambda>v. JUndefined)
     ''/chat'' empty_storage =
     \<lparr>outcome = Resolved (JObj [(''reply'', JStr ''hi'')]),
      store = empty_storage\<lparr>entries := [''BASE_URL'' \<mapsto> JStr ''http://127.0.0.1:8000'']\<rparr>,
      trace = [Request (JStr ''http://127.0.0.1:8000''), Store (JStr ''http://127.0.0.1:8000'')]\<rparr>"
proof -
  let ?wx = "(\<lambda>m u b. if m = ''POST'' \<and> u = ''http://127.0.0.1:8000/chat''
             then Success 500 (JStr ''down'')
             else Success 200 (JObj [(''reply'', JStr ''hi'')]))"
  let ?sf = "\<lambda>v::jsval. JUndefined"
  let ?alt = "JStr ''http://localhost:8000''"
  have first: "getStoredBaseUrl empty_storage = JStr ''http://127.0.0.1:8000''"
    by (simp add: getStoredBaseUrl_def getStorageSync_def empty_storage_def js_or_def DEFAULTS_def)
  have h1: "alternate (getStoredBaseUrl empty_storage) = Inr ?alt"
    by (simp add: first alternate_def DEFAULTS_def)
  have h2: "?wx ''POST'' (ToString (getStoredBaseUrl empty_storage) @ ''/chat'') JNull =
              Success 500 (JStr ''down'')"
    by (simp add: first)
  have h3: "?wx ''POST'' (ToString ?alt @ ''/chat'') JNull = Success 200 (JObj [(''reply'', JStr ''hi'')])"
    by simp
  have h4: "?wx ''GET'' (ToString (getStoredBaseUrl empty_storage) @ ''/chat'') JUndefined =
              Success 200 (JObj [(''reply'', JStr ''hi'')])"
    by simp
  note T = attempt_succeeds_on_2xx_and_success_is_persisted
    [of ?wx ?sf "''POST''" "''/chat''" JNull "getStoredBaseUrl empty_storage" empty_storage]
  from T h2 have bad: "attempt ?wx ?sf ''POST'' ''/chat'' JNull (getStoredBaseUrl empty_storage) =
      Rejected (Error ''HTTP 500: down'')"
    by (simp add: show_int_500)
  from T h1 bad h3 have ok: "post ?wx ?sf ''/chat'' JNull empty_storage =
     \<lparr>outcome = Resolved (JObj [(''reply'', JStr ''hi'')]),
      store = setBaseUrl ?alt (setBaseUrl ?alt empty_storage),
      trace = [Request (getStoredBaseUrl empty_storage), Store ?alt, Request ?alt, Store ?alt]\<rparr>"
    by simp
  from T h1 h4 have okg: "get ?wx ?sf ''/chat'' empty_storage =
     \<lparr>outcome = Resolved (JObj [(''reply'', JStr ''hi'')]),
      store = setBaseUrl (getStoredBaseUrl empty_storage) empty_storage,
      trace = [Request (getStoredBaseUrl empty_storage), Store (getStoredBaseUrl empty_storage)]\<rparr>"
    by simp
  have st: "setBaseUrl ?alt (setBaseUrl ?alt empty_storage) =
              empty_storage\<lparr>entries := [''BASE_URL'' \<mapsto> ?alt]\<rparr>"
    by (simp add: setBaseUrl_def setStorageSync_def empty_storage_def)
  have stg: "setBaseUrl (JStr ''http://127.0.0.1:8000'') empty_storage =
              empty_storage\<lparr>entries := [''BASE_URL'' \<mapsto> JStr ''http://127.0.0.1:8000'']\<rparr>"
    by (simp add: setBaseUrl_def setStorageSync_def empty_storage_def)
  from h1 h2 bad h3 ok h4 okg show ?thesis
    by (simp add: st stg first)
qed

lemma pool_store_first: "pool_store st \<Longrightarrow> getStoredBaseUrl st \<in> JStr ` set DEFAULTS"
  by (auto simp: pool_store_def getStoredBaseUrl_def getStorageSync_def js_or_def DEFAULTS_def
      split: option.splits)

lemma pool_store_setBaseUrl:
  "pool_store st \<Longrightarrow> u \<in> JStr ` set DEFAULTS \<Longrightarrow> pool_store (setBaseUrl u st)"
  by (auto simp: pool_store_def setBaseUrl_def setStorageSync_def)

lemma pool_alternate:
  "first \<in> JStr ` set DEFAULTS \<Longrightarrow> \<exists>alt. alternate first = Inr alt \<and> alt \<in> JStr ` set DEFAULTS"
  by (auto simp: alternate_def DEFAULTS_def)

lemma executor_writes_pool:
  assumes "pool_store st"
  shows "(\<forall>u. Store u \<in> set (trace (persist_base (wxRequest wx stringify method path body st))) \<longrightarrow>
            u \<in> JStr ` set DEFAULTS) \<and>
         pool_store (store (persist_base (wxRequest wx stringify method path body st)))"
proof -
  let ?f = "attempt wx stringify method path body"
  let ?first = "getStoredBaseUrl st"
  have first: "?first \<in> JStr ` set DEFAULTS" using assms by (rule pool_store_first)
  then obtain alt where alt: "alternate ?first = Inr alt" "alt \<in> JStr ` set DEFAULTS"
    using pool_alternate by blast
  show ?thesis
  proof (cases "?f ?first")
    case (Resolved r)
    then have "base r = ?first" by (rule attempt_base)
    with Resolved alt(1) assms first show ?thesis
      by (simp add: wxRequest_def withFallback_resolved persist_base_def pool_store_setBaseUrl)
  next
    case Pending
    with alt(1) assms show ?thesis
      by (simp add: wxRequest_def withFallback_pending persist_base_def)
  next
    case (Rejected e)
    note w = withFallback_rejected [where requestFn = "?f", OF alt(1) Rejected]
    have st1: "pool_store (setBaseUrl alt st)"
      using assms alt(2) by (rule pool_store_setBaseUrl)
    show ?thesis
    proof (cases "?f alt")
      case (Resolved r)
      then have "base r = alt" by (rule attempt_base)
      with Resolved alt(2) st1 show ?thesis
        by (simp add: wxRequest_def w persist_base_def pool_store_setBaseUrl)
    next
      case Pending
      with alt(2) st1 show ?thesis
        by (simp add: wxRequest_def w persist_base_def)
    next
      case (Rejected e2)
      with alt(2) st1 show ?thesis
        by (simp add: wxRequest_def w persist_base_def)
    qed
  qed
qed

text \<open>
  Claim C9. From a store whose endpoint entry is absent or one of the two defaults, every
  \<open>setBaseUrl\<close> call that \<open>post\<close> or \<open>get\<close> makes (the switch before the retry and the
  persist on success) writes one of the two defaults, and the entry is again absent or a
  default afterwards.
\<close>

theorem executor_only_writes_default_endpoints:
  assumes "pool_store st"
  shows "(\<forall>u. Store u \<in> set (trace (post wx stringify path body st)) \<longrightarrow>
            u \<in> JStr ` set DEFAULTS) \<and>
         pool_store (store (post wx stringify path body st)) \<and>
         (\<forall>u. Store u \<in> set (trace (get wx stringify path st)) \<longrightarrow>
            u \<in> JStr ` set DEFAULTS) \<and>
         pool_store (store (get wx stringify path st))"
  using executor_writes_pool [OF assms, of wx stringify "''POST''" path body]
    executor_writes_pool [OF assms, of wx stringify "''GET''" path JUndefined]
  unfolding post_def get_def by blast

theorem executor_only_writes_default_endpoints_witness:
  "pool_store empty_storage \<and>
   trace (post (\<lambda>m u b. Fail JNull) (\<lambda>v. JUndefined) ''/chat'' JNull empty_storage) =
     [Request (JStr ''http://127.0.0.1:8000''), Store (JStr ''http://localhost:8000''),
      Request (JStr ''http://localhost:8000'')] \<and>
   JStr ''http://localhost:8000'' \<in> JStr ` set DEFAULTS \<and>
   pool_store (store (post (\<lambda>m u b. Fail JNull) (\<lambda>v. JUndefined) ''/chat'' JNull empty_storage))"
proof -
  have h: "pool_store empty_storage"
    by (simp add: pool_store_def empty_storage_def)
  have first: "getStoredBaseUrl empty_storage = JStr ''http://127.0.0.1:8000''"
    by (simp add: getStoredBaseUrl_def getStorageSync_def empty_storage_def js_or_def DEFAULTS_def)
  have alt: "alternate (JStr ''http://127.0.0.1:8000'') = Inr (JStr ''http://localhost:8000'')"
    by (simp add: alternate_def DEFAULTS_def)
  have tr: "trace (post (\<lambda>m u b. Fail JNull) (\<lambda>v. JUndefined) ''/chat'' JNull empty_storage) =
     [Request (JStr ''http://127.0.0.1:8000''), Store (JStr ''http://localhost:8000''),
      Request (JStr ''http://localhost:8000'')]"
    by (simp add: post_def wxRequest_def withFallback_def persist_base_def first alt attempt_def)
  from executor_only_writes_default_endpoints
    [OF h, of "\<lambda>m u b. Fail JNull" "\<lambda>v. JUndefined" "''/chat''" JNull]
  show ?thesis using h tr by simp
qed

section \<open>The history store\<close>

lemma take_append_take: "take n (xs @ take n ys) = take n (xs @ ys)"
  by (simp add: min_def)

lemma history_read:
  "\<not> get_throws st \<Longrightarrow> log_is_list st \<Longrightarrow>
   \<exists>v. getStorageSync st ''learning_history'' = Inr v \<and> js_or v (JArr []) = JArr (history st)"
  by (cases "entries st ''learning_history''"; cases "the (entries st ''learning_history'')")
     (auto simp: getStorageSync_def log_is_list_def history_def js_or_def)

lemma history_write:
  "\<not> set_throws st \<Longrightarrow>
   \<exists>st'. setStorageSync st ''learning_history'' (JArr xs) = Inr st' \<and> history st' = xs \<and>
         entries st' ''learning_history'' = Some (JArr xs) \<and>
         get_throws st' = get_throws st \<and> set_throws st' = set_throws st"
  by (simp add: setStorageSync_def history_def)

lemma saveHistoryItem_entry:
  assumes "\<not> get_throws st" "\<not> set_throws st" "log_is_list st"
  shows "entries (saveHistoryItem t item st) ''learning_history'' =
           Some (JArr (take 200 (with_ts item t # history st)))"
proof -
  from history_read [OF assms(1,3)] obtain v where
    v: "getStorageSync st ''learning_history'' = Inr v" "js_or v (JArr []) = JArr (history st)"
    by blast
  from history_write [OF assms(2)] obtain st' where
    "setStorageSync st ''learning_history'' (JArr (take 200 (with_ts item t # history st))) = Inr st'"
    "entries st' ''learning_history'' = Some (JArr (take 200 (with_ts item t # history st)))"
    by blast
  with v show ?thesis by (simp add: saveHistoryItem_def)
qed

lemma saveHistory_entry:
  assumes "\<not> get_throws st" "\<not> set_throws st" "log_is_list st"
  shows "entries (saveHistory now items st) ''learning_history'' =
           Some (JArr (take 200 (stamp now 0 items @ history st)))"
proof -
  from history_read [OF assms(1,3)] obtain v where
    v: "getStorageSync st ''learning_history'' = Inr v" "js_or v (JArr []) = JArr (history st)"
    by blast
  from history_write [OF assms(2)] obtain st' where
    "setStorageSync st ''learning_history'' (JArr (take 200 (stamp now 0 items @ history st))) = Inr st'"
    "entries st' ''learning_history'' = Some (JArr (take 200 (stamp now 0 items @ history st)))"
    by blast
  with v show ?thesis by (simp add: saveHistory_def)
qed

lemma history_of_entry: "entries st ''learning_history'' = Some (JArr xs) \<Longrightarrow> history st = xs"
  by (simp add: history_def)

lemma log_is_list_of_entry: "entries st ''learning_history'' = Some (JArr xs) \<Longrightarrow> log_is_list st"
  by (simp add: log_is_list_def)

lemma saveHistoryItem_flags [simp]:
  "get_throws (saveHistoryItem t item st) = get_throws st"
  "set_throws (saveHistoryItem t item st) = set_throws st"
  by (auto simp: saveHistoryItem_def getStorageSync_def setStorageSync_def
      split: sum.splits jsval.splits)

lemma saveHistory_flags [simp]:
  "get_throws (saveHistory now items st) = get_throws st"
  "set_throws (saveHistory now items st) = set_throws st"
  by (auto simp: saveHistory_def getStorageSync_def setStorageSync_def Let_def
      split: sum.splits)

lemma saveHistoryItem_capped: "capped st \<Longrightarrow> capped (saveHistoryItem t item st)"
  by (auto simp: saveHistoryItem_def getStorageSync_def setStorageSync_def capped_def history_def
      split: sum.splits jsval.splits if_splits)

lemma saveHistory_capped: "capped st \<Longrightarrow> capped (saveHistory now items st)"
  by (auto simp: saveHistory_def getStorageSync_def setStorageSync_def capped_def history_def
      Let_def split: sum.splits if_splits)

lemma onClear_capped: "capped st \<Longrightarrow> capped (onClear st)"
  by (auto simp: onClear_def setStorageSync_def capped_def history_def)

lemma saveHistory_capped_working:
  "\<not> get_throws st \<Longrightarrow> \<not> set_throws st \<Longrightarrow> capped (saveHistory now items st)"
  by (simp add: saveHistory_def getStorageSync_def setStorageSync_def capped_def history_def
      Let_def)

lemma saveHistoryItem_capped_working:
  "\<not> get_throws st \<Longrightarrow> \<not> set_throws st \<Longrightarrow> capped (saveHistoryItem t item st)"
  by (auto simp: saveHistoryItem_def getStorageSync_def setStorageSync_def capped_def history_def
      js_or_def split: jsval.splits option.splits)

lemma onClear_capped_working: "\<not> set_throws st \<Longrightarrow> capped (onClear st)"
  by (simp add: onClear_def setStorageSync_def capped_def history_def)

lemma onClear_history: "\<not> set_throws st \<Longrightarrow> history (onClear st) = []"
  by (simp add: onClear_def setStorageSync_def history_def)

lemma saveHistoryItems_history:
  assumes "\<not> get_throws st" "\<not> set_throws st" "log_is_list st"
  shows "history (saveHistoryItems tis st) =
           take 200 (rev (map (\<lambda>(t, item). with_ts item t) tis) @ history st) \<or>
         (tis = [] \<and> history (saveHistoryItems tis st) = history st)"
  using assms
proof (induction tis arbitrary: st)
  case Nil
  then show ?case by simp
next
  case (Cons p tis)
  obtain t item where p: "p = (t, item)" by (cases p)
  let ?st = "saveHistoryItem t item st"
  have e: "entries ?st ''learning_history'' = Some (JArr (take 200 (with_ts item t # history st)))"
    using Cons.prems by (rule saveHistoryItem_entry)
  have h: "history ?st = take 200 (with_ts item t # history st)"
    using e by (rule history_of_entry)
  have l: "log_is_list ?st" using e by (rule log_is_list_of_entry)
  let ?R = "rev (map (\<lambda>(t, item). with_ts item t) tis)"
  have "history (saveHistoryItems tis ?st) = take 200 (?R @ history ?st)"
  proof (cases tis)
    case Nil
    then show ?thesis by (simp add: h)
  next
    case (Cons q qs)
    with Cons.IH [of ?st] Cons.prems l show ?thesis by simp
  qed
  also have "\<dots> = take 200 (?R @ take 200 (with_ts item t # history st))"
    by (simp only: h)
  also have "\<dots> = take 200 (?R @ with_ts item t # history st)"
    by (rule take_append_take)
  also have "?R @ with_ts item t # history st =
      rev (map (\<lambda>(t, item). with_ts item t) (p # tis)) @ history st"
    by (simp add: p)
  finally have "history (saveHistoryItems tis ?st) =
      take 200 (rev (map (\<lambda>(t, item). with_ts item t) (p # tis)) @ history st)" .
  then show ?case by (simp only: p saveHistoryItems.simps) simp
qed

lemma saveHistoryItems_fresh:
  "history (saveHistoryItems tis empty_storage) =
     take 200 (rev (map (\<lambda>(t, item). with_ts item t) tis))"
proof -
  have a: "\<not> get_throws empty_storage" "\<not> set_throws empty_storage" "log_is_list empty_storage"
    "history empty_storage = []"
    by (simp_all add: empty_storage_def log_is_list_def history_def)
  from saveHistoryItems_history [OF a(1,2,3), of tis] show ?thesis
    by (auto simp: a(4))
qed

lemma length_stamp [simp]: "length (stamp now i items) = length items"
  by (induction items arbitrary: i) auto


lemma saveHistory_fresh:
  "history (saveHistory now items empty_storage) = take 200 (stamp now 0 items)"
proof -
  have a: "\<not> get_throws empty_storage" "\<not> set_throws empty_storage" "log_is_list empty_storage"
    "history empty_storage = []"
    by (simp_all add: empty_storage_def log_is_list_def history_def)
  from saveHistory_entry [OF a(1,2,3), of now items] show ?thesis
    by (simp add: a(4) history_of_entry)
qed

text \<open>
  Claim C6. Each mutation of the history store (\<open>saveHistory\<close>, \<open>saveHistoryItem\<close>,
  \<open>onClear\<close>) leaves a log of at most 200 entries, when the storage works or the log had
  at most 200 entries before; when the storage works, the new log is the first 200 entries of the
  new items followed by the old log, so that the entries lost are the oldest ones at the
  tail. 210 single insertions into the empty store leave exactly 200 entries: the last 200
  inserted, newest first. A batch of 210 leaves 200 entries as well.
\<close>
theorem history_log_is_capped_at_200:
  "(capped st \<or> (\<not> get_throws st \<and> \<not> set_throws st) \<longrightarrow>
      capped (saveHistory now items st) \<and> capped (saveHistoryItem t item st) \<and>
      capped (onClear st)) \<and>
   (\<not> get_throws st \<and> \<not> set_throws st \<and> log_is_list st \<longrightarrow>
      history (saveHistoryItem t item st) = take 200 (with_ts item t # history st) \<and>
      history (saveHistory now items st) = take 200 (stamp now 0 items @ history st) \<and>
      history (onClear st) = []) \<and>
   history (saveHistoryItems tis empty_storage) =
     take 200 (rev (map (\<lambda>(t, item). with_ts item t) tis)) \<and>
   history (saveHistory now items empty_storage) = take 200 (stamp now 0 items) \<and>
   (length tis = 210 \<longrightarrow>
      length (history (saveHistoryItems tis empty_storage)) = 200 \<and>
      history (saveHistoryItems tis empty_storage) =
        rev (drop 10 (map (\<lambda>(t, item). with_ts item t) tis))) \<and>
   (length items = 210 \<longrightarrow> length (history (saveHistory now items empty_storage)) = 200)"
  (is "?A \<and> ?B \<and> ?C \<and> ?D \<and> ?E \<and> ?F")
proof -
  have A: ?A
  proof
    assume "capped st \<or> (\<not> get_throws st \<and> \<not> set_throws st)"
    then show "capped (saveHistory now items st) \<and> capped (saveHistoryItem t item st) \<and>
      capped (onClear st)"
    proof
      assume "capped st"
      then show ?thesis
        by (simp add: saveHistory_capped saveHistoryItem_capped onClear_capped)
    next
      assume "\<not> get_throws st \<and> \<not> set_throws st"
      then show ?thesis
        by (simp add: saveHistory_capped_working saveHistoryItem_capped_working
            onClear_capped_working)
    qed
  qed
  have B: ?B
    by (simp add: saveHistoryItem_entry saveHistory_entry history_of_entry onClear_history)
  have C: ?C by (rule saveHistoryItems_fresh)
  have D: ?D by (rule saveHistory_fresh)
  have E: ?E
  proof
    assume len: "length tis = 210"
    let ?xs = "map (\<lambda>(t, item). with_ts item t) tis"
    have "take 200 (rev ?xs) = rev (drop (length ?xs - 200) ?xs)"
      by (rule take_rev)
    then have eq: "history (saveHistoryItems tis empty_storage) = rev (drop 10 ?xs)"
      using len by (simp add: C)
    then have "length (history (saveHistoryItems tis empty_storage)) = 200"
      using len by simp
    with eq show "length (history (saveHistoryItems tis empty_storage)) = 200 \<and>
      history (saveHistoryItems tis empty_storage) = rev (drop 10 ?xs)" by simp
  qed
  have F: ?F by (simp add: D)
  from A B C D E F show ?thesis by blast
qed

theorem history_log_is_capped_at_200_witness:
  "capped empty_storage \<and> \<not> get_throws empty_storage \<and> \<not> set_throws empty_storage \<and>
   log_is_list empty_storage \<and>
   length (map (\<lambda>i. (int i, JNum (int i))) [0..<210]) = 210 \<and>
   length (map (\<lambda>i. JNum (int i)) [0..<210]) = 210 \<and>
   capped (saveHistoryItem 1 JNull empty_storage) \<and>
   history (saveHistoryItem 1 JNull empty_storage) = [JObj [(''ts'', JNum 1)]] \<and>
   length (history (saveHistoryItems (map (\<lambda>i. (int i, JNum (int i))) [0..<210]) empty_storage))
     = 200 \<and>
   length (history (saveHistory int (map (\<lambda>i. JNum (int i)) [0..<210]) empty_storage)) = 200"
proof -
  have a: "capped empty_storage" "\<not> get_throws empty_storage" "\<not> set_throws empty_storage"
    "log_is_list empty_storage" "history empty_storage = []"
    by (simp_all add: empty_storage_def log_is_list_def history_def capped_def)
  have w: "with_ts JNull 1 = JObj [(''ts'', JNum 1)]"
    by (simp add: with_ts_def)
  from history_log_is_capped_at_200
    [of empty_storage int "map (\<lambda>i. JNum (int i)) [0..<210]" 1 JNull
        "map (\<lambda>i. (int i, JNum (int i))) [0..<210]"]
  show ?thesis using a by (simp add: w)
qed

text \<open>
  Claim C7 says that the chat flow appends to the tail of the persisted log. It does not:
  with the log \<open>[old]\<close>, saving \<open>[new]\<close> from the chat flow persists \<open>[new, old]\<close>.
\<close>

theorem chat_flow_inserts_at_head_not_tail:
  "history (saveHistory (\<lambda>i. 7) [JObj [(''word'', JStr ''new'')]]
     (empty_storage\<lparr>entries := [''learning_history'' \<mapsto> JArr [JObj [(''word'', JStr ''old'')]]]\<rparr>))
   = [JObj [(''word'', JStr ''new''), (''ts'', JNum 7)], JObj [(''word'', JStr ''old'')]] \<and>
   history (saveHistory (\<lambda>i. 7) [JObj [(''word'', JStr ''new'')]]
     (empty_storage\<lparr>entries := [''learning_history'' \<mapsto> JArr [JObj [(''word'', JStr ''old'')]]]\<rparr>))
   \<noteq> [JObj [(''word'', JStr ''old'')], JObj [(''word'', JStr ''new''), (''ts'', JNum 7)]]"
  by (simp add: saveHistory_def getStorageSync_def setStorageSync_def empty_storage_def js_or_def
      history_def with_ts_def)

text \<open>
  Claim C7, amended. Both call sites insert at the head. When the storage works and the
  entry is absent or a list, the chat flow persists the first 200 entries of the stamped
  batch (in its order) followed by the old log, the suggestion flow the first 200 entries
  of the stamped item followed by the old log, each as one whole list; the chat flow on a
  batch of one item does what the suggestion flow does on that item.
\<close>

theorem both_flows_insert_at_head:
  "\<not> get_throws st \<and> \<not> set_throws st \<and> log_is_list st \<longrightarrow>
     entries (saveHistory now items st) ''learning_history'' =
       Some (JArr (take 200 (stamp now 0 items @ history st))) \<and>
     entries (saveHistoryItem t item st) ''learning_history'' =
       Some (JArr (take 200 (with_ts item t # history st))) \<and>
     saveHistory now [item] st = saveHistoryItem (now 0) item st"
proof (intro impI, elim conjE)
  assume a: "\<not> get_throws st" "\<not> set_throws st" "log_is_list st"
  from history_read [OF a(1,3)] obtain v where
    v: "getStorageSync st ''learning_history'' = Inr v" "js_or v (JArr []) = JArr (history st)"
    by blast
  have "saveHistory now [item] st = saveHistoryItem (now 0) item st"
    using v by (simp add: saveHistory_def saveHistoryItem_def)
  with a show "entries (saveHistory now items st) ''learning_history'' =
       Some (JArr (take 200 (stamp now 0 items @ history st))) \<and>
     entries (saveHistoryItem t item st) ''learning_history'' =
       Some (JArr (take 200 (with_ts item t # history st))) \<and>
     saveHistory now [item] st = saveHistoryItem (now 0) item st"
    by (simp add: saveHistory_entry saveHistoryItem_entry)
qed

theorem both_flows_insert_at_head_witness:
  "\<not> get_throws (empty_storage\<lparr>entries := [''learning_history'' \<mapsto> JArr [JObj [(''word'', JStr ''old'')]]]\<rparr>) \<and>
   \<not> set_throws (empty_storage\<lparr>entries := [''learning_history'' \<mapsto> JArr [JObj [(''word'', JStr ''old'')]]]\<rparr>) \<and>
   log_is_list (empty_storage\<lparr>entries := [''learning_history'' \<mapsto> JArr [JObj [(''word'', JStr ''old'')]]]\<rparr>) \<and>
   entries (saveHistory (\<lambda>i. 7 + int i)
              [JObj [(''word'', JStr ''first'')], JObj [(''word'', JStr ''second'')]]
              (empty_storage\<lparr>entries := [''learning_history'' \<mapsto> JArr [JObj [(''word'', JStr ''old'')]]]\<rparr>)) ''learning_history'' =
     Some (JArr [JObj [(''word'', JStr ''first''), (''ts'', JNum 7)],
                 JObj [(''word'', JStr ''second''), (''ts'', JNum 8)],
                 JObj [(''word'', JStr ''old'')]]) \<and>
   entries (saveHistoryItem 9 (JObj [(''word'', JStr ''new'')])
              (empty_storage\<lparr>entries := [''learning_history'' \<mapsto> JArr [JObj [(''word'', JStr ''old'')]]]\<rparr>)) ''learning_history'' =
     Some (JArr [JObj [(''word'', JStr ''new''), (''ts'', JNum 9)],
                 JObj [(''word'', JStr ''old'')]])"
proof -
  let ?st = "(empty_storage\<lparr>entries := [''learning_history'' \<mapsto> JArr [JObj [(''word'', JStr ''old'')]]]\<rparr>)"
  have a: "\<not> get_throws ?st" "\<not> set_throws ?st" "log_is_list ?st"
    "history ?st = [JObj [(''word'', JStr ''old'')]]"
    by (simp_all add: empty_storage_def log_is_list_def history_def)
  have s: "with_ts (JObj [(''word'', JStr ''first'')]) 7 =
             JObj [(''word'', JStr ''first''), (''ts'', JNum 7)]"
    "with_ts (JObj [(''word'', JStr ''second'')]) 8 =
             JObj [(''word'', JStr ''second''), (''ts'', JNum 8)]"
    by (simp_all add: with_ts_def)
  have w: "with_ts (JObj [(''word'', JStr ''new'')]) 9 =
           JObj [(''word'', JStr ''new''), (''ts'', JNum 9)]"
    by (simp add: with_ts_def)
  from both_flows_insert_at_head
    [of ?st "\<lambda>i. 7 + int i"
        "[JObj [(''word'', JStr ''first'')], JObj [(''word'', JStr ''second'')]]"
        9 "JObj [(''word'', JStr ''new'')]"]
  show ?thesis using a(1,2,3) by (simp add: a(4) s w)
qed

lemma map_of_set_prop: "map_of (set_prop k v kvs) k = Some v"
  by (induction kvs) auto

lemma with_ts_ts: "get_prop (with_ts item t) ''ts'' = JNum t"
  by (simp add: with_ts_def map_of_set_prop)

lemma stamp_nth: "i < length items \<Longrightarrow> stamp now j items ! i = with_ts (items ! i) (now (j + i))"
proof (induction items arbitrary: i j)
  case Nil
  then show ?case by simp
next
  case (Cons x xs)
  then show ?case by (cases i) auto
qed

text \<open>
  Claim C8 says that an item that carries a timestamp keeps it. It does not: an item
  with \<open>ts = 1\<close> saved at clock reading 2 is persisted with \<open>ts = 2\<close>, in both flows.
\<close>

theorem existing_timestamp_is_overwritten:
  "history (saveHistoryItem 2 (JObj [(''word'', JStr ''cat''), (''ts'', JNum 1)]) empty_storage) =
     [JObj [(''word'', JStr ''cat''), (''ts'', JNum 2)]] \<and>
   history (saveHistory (\<lambda>i. 2) [JObj [(''word'', JStr ''cat''), (''ts'', JNum 1)]] empty_storage) =
     [JObj [(''word'', JStr ''cat''), (''ts'', JNum 2)]]"
  by (simp add: saveHistoryItem_def saveHistory_def getStorageSync_def setStorageSync_def
      empty_storage_def js_or_def history_def with_ts_def)

text \<open>
  Claim C8, amended. Every incoming item is stamped with the current clock reading, whether
  or not it already carries a timestamp: the \<open>ts\<close> of the stamped item is the reading, and
  so is the \<open>ts\<close> of each entry that the two flows persist for the incoming items.
\<close>

theorem every_item_is_stamped_with_the_clock:
  "get_prop (with_ts item t) ''ts'' = JNum t \<and>
   (\<not> get_throws st \<and> \<not> set_throws st \<and> log_is_list st \<longrightarrow>
      history (saveHistoryItem t item st) \<noteq> [] \<and>
      get_prop (history (saveHistoryItem t item st) ! 0) ''ts'' = JNum t \<and>
      (\<forall>i. i < length items \<and> i < 200 \<longrightarrow>
         get_prop (history (saveHistory now items st) ! i) ''ts'' = JNum (now i)))"
proof -
  have "history (saveHistoryItem t item st) \<noteq> [] \<and>
      get_prop (history (saveHistoryItem t item st) ! 0) ''ts'' = JNum t \<and>
      (\<forall>i. i < length items \<and> i < 200 \<longrightarrow>
         get_prop (history (saveHistory now items st) ! i) ''ts'' = JNum (now i))"
    if a: "\<not> get_throws st" "\<not> set_throws st" "log_is_list st"
  proof -
    have h1: "history (saveHistoryItem t item st) = take 200 (with_ts item t # history st)"
      using saveHistoryItem_entry [OF a] by (rule history_of_entry)
    have h2: "history (saveHistory now items st) = take 200 (stamp now 0 items @ history st)"
      using saveHistory_entry [OF a] by (rule history_of_entry)
    have "get_prop (history (saveHistory now items st) ! i) ''ts'' = JNum (now i)"
      if "i < length items" "i < 200" for i
      using that by (simp add: h2 nth_append stamp_nth with_ts_ts)
    then show ?thesis by (simp add: h1 with_ts_ts)
  qed
  then show ?thesis by (simp add: with_ts_ts)
qed

theorem every_item_is_stamped_with_the_clock_witness:
  "\<not> get_throws empty_storage \<and> \<not> set_throws empty_storage \<and> log_is_list empty_storage \<and>
   (0::nat) < length [JObj [(''ts'', JNum 1)]] \<and> (0::nat) < 200 \<and>
   get_prop (history (saveHistoryItem 2 (JObj [(''ts'', JNum 1)]) empty_storage) ! 0) ''ts'' =
     JNum 2 \<and>
   get_prop (history (saveHistory (\<lambda>i. 2) [JObj [(''ts'', JNum 1)]] empty_storage) ! 0) ''ts'' =
     JNum 2"
proof -
  have a: "\<not> get_throws empty_storage" "\<not> set_throws empty_storage"
    "log_is_list empty_storage"
    by (simp_all add: empty_storage_def log_is_list_def)
  from every_item_is_stamped_with_the_clock
    [of "JObj [(''ts'', JNum 1)]" 2 empty_storage "[JObj [(''ts'', JNum 1)]]" "\<lambda>i. 2"]
  show ?thesis using a by simp
qed

section \<open>The response normalizer and the displayed text\<close>

lemma find_sub_here: "p \<noteq> [] \<Longrightarrow> find_sub p (p @ t) = Some ([], t)"
  by (cases p) auto

lemma find_sub_skip:
  assumes "p \<noteq> []" "hd p = CHR ''<''" "CHR ''<'' \<notin> set a"
  shows "find_sub p (a @ t) =
           (case find_sub p t of None \<Rightarrow> None | Some (x, y) \<Rightarrow> Some (a @ x, y))"
  using assms(3)
proof (induction a)
  case Nil
  then show ?case by (simp split: option.splits)
next
  case (Cons c a)
  from Cons.prems have c: "c \<noteq> CHR ''<''" and a: "CHR ''<'' \<notin> set a" by auto
  have "take (length p) (c # a @ t) \<noteq> p"
  proof
    assume "take (length p) (c # a @ t) = p"
    then have "hd (take (length p) (c # a @ t)) = hd p" by simp
    with assms(1,2) c show False by (cases p) auto
  qed
  with Cons.IH [OF a] show ?case by (simp split: option.splits)
qed

lemma find_sub_first:
  assumes "p \<noteq> []" "hd p = CHR ''<''" "CHR ''<'' \<notin> set a"
  shows "find_sub p (a @ p @ t) = Some (a, t)"
  using find_sub_skip [OF assms, of "p @ t"] find_sub_here [OF assms(1), of t] by simp

lemma tags [simp]:
  "open_tag \<noteq> []" "hd open_tag = CHR ''<''" "close_tag \<noteq> []" "hd close_tag = CHR ''<''"
  by (simp_all add: open_tag_def close_tag_def)

lemma strip_tagged_none: "find_sub open_tag s = None \<Longrightarrow> strip_tagged s = s"
  by (simp add: strip_tagged.simps)

lemma strip_tagged_plain:
  assumes "CHR ''<'' \<notin> set a"
  shows "strip_tagged (a @ t) = a @ strip_tagged t"
proof (cases "find_sub open_tag t")
  case None
  then have "find_sub open_tag (a @ t) = None"
    using find_sub_skip [OF tags(1,2) assms, of t] by simp
  with None show ?thesis by (simp add: strip_tagged_none)
next
  case (Some xy)
  obtain x y where xy: "xy = (x, y)" by (cases xy)
  have f: "find_sub open_tag (a @ t) = Some (a @ x, y)"
    using find_sub_skip [OF tags(1,2) assms, of t] Some xy by simp
  show ?thesis
    using Some xy f
    by (simp add: strip_tagged.simps [of "a @ t"] strip_tagged.simps [of t] split: option.splits)
qed

lemma strip_tagged_block:
  assumes "CHR ''<'' \<notin> set b"
  shows "strip_tagged (open_tag @ b @ close_tag @ t) = strip_tagged t"
proof -
  have 1: "find_sub open_tag (open_tag @ b @ close_tag @ t) = Some ([], b @ close_tag @ t)"
    by (rule find_sub_here) simp
  have 2: "find_sub close_tag (b @ close_tag @ t) = Some (b, t)"
    using tags(3,4) assms by (rule find_sub_first)
  show ?thesis
    by (simp add: strip_tagged.simps [of "open_tag @ b @ close_tag @ t"] 1 2)
qed

lemma strip_tagged_render: "list_all no_lt segs \<Longrightarrow> strip_tagged (render segs) = plain_text segs"
proof (induction segs rule: render.induct)
  case 1
  then show ?case by (simp add: strip_tagged.simps open_tag_def)
next
  case (2 s segs)
  then show ?case by (simp add: strip_tagged_plain)
next
  case (3 b segs)
  then show ?case by (simp add: strip_tagged_block)
qed

lemma tagged_content_shape:
  assumes "CHR ''<'' \<notin> set a" "CHR ''<'' \<notin> set b"
  shows "tagged_content (a @ open_tag @ b @ close_tag @ t) = Some (trim b)"
proof -
  have 1: "find_sub open_tag (a @ open_tag @ b @ close_tag @ t) = Some (a, b @ close_tag @ t)"
    using tags(1,2) assms(1) by (rule find_sub_first)
  have 2: "find_sub close_tag (b @ close_tag @ t) = Some (b, t)"
    using tags(3,4) assms(2) by (rule find_sub_first)
  show ?thesis by (simp add: tagged_content_def 1 2)
qed

lemma suggestion_accept [simp]: "suggestion (accept now item pg) = item"
  by (simp add: accept_def)

lemma normalize_learned:
  "from_learned res = Some item \<Longrightarrow> normalize parse now res pg = accept now item pg"
  by (simp add: normalize_def)

lemma normalize_tagged:
  "from_learned res = None \<Longrightarrow> from_tagged parse (reply_text res []) = Some item \<Longrightarrow>
   normalize parse now res pg = accept now item pg"
  by (simp add: normalize_def)

lemma normalize_pipe:
  "from_learned res = None \<Longrightarrow> from_tagged parse (reply_text res []) = None \<Longrightarrow>
   from_pipe (trim (strip_tagged (reply_text res []))) = Some item \<Longrightarrow>
   normalize parse now res pg = accept now item pg"
  by (simp add: normalize_def)

lemma normalize_fallback:
  "from_learned res = None \<Longrightarrow> from_tagged parse (reply_text res []) = None \<Longrightarrow>
   from_pipe (trim (strip_tagged (reply_text res []))) = None \<Longrightarrow>
   normalize parse now res pg =
     pg\<lparr>suggestion := fallback_item (trim (strip_tagged (reply_text res []))),
        toast := Some ''Daily suggestion parse failed''\<rparr>"
  by (simp add: normalize_def)

lemma reply_only [simp]:
  "from_learned (JObj [(''reply'', JStr txt)]) = None"
  "reply_text (JObj [(''reply'', JStr txt)]) [] = txt"
  by (simp_all add: from_learned_def reply_text_def)

lemma from_pipe_shape:
  "from_pipe s = Some item \<Longrightarrow>
   \<exists>w t l h. item = JObj [(''word'', JStr w), (''topic'', JStr t), (''level'', JStr l),
                            (''hint'', JStr h)]"
  by (auto simp: from_pipe_def Let_def split: if_splits)

lemma fallback_item_eq:
  "fallback_item s =
     JObj [(''word'', JStr ''Word''), (''topic'', JStr ''General''), (''level'', JStr ''All''),
           (''hint'', JStr (if s = [] then ''Start learning now!'' else s))]"
  by (simp add: fallback_item_def js_or_def)

lemma from_tagged_list:
  "tagged_content txt = Some m1 \<Longrightarrow> m1 \<noteq> [] \<Longrightarrow> parse m1 = Inr (JArr (x # xs)) \<Longrightarrow>
   from_tagged parse txt = Some x"
  by (simp add: from_tagged_def)

lemma onSend_then_text:
  "fst (onSend_then clock res st) = trim (strip_tagged (reply_text res ''No reply''))"
  by (simp add: onSend_then_def Let_def)


text \<open>
  Claim C3 says that the item is never null. It can be: the first element of the tagged
  list is taken as it is, so the reply \<^verbatim>\<open><learned_json>[null]</learned_json>\<close> gives
  the item \<^verbatim>\<open>null\<close>.
\<close>
theorem tagged_null_element_gives_null_item:
  "suggestion (normalize JSON_parse 5 (JObj [(''reply'', JStr ''<learned_json>[null]</learned_json>'')])
     \<lparr>suggestion = JUndefined, toast = None, storage = empty_storage\<rparr>) = JNull"
  by code_simp

text \<open>
  Claim C3, amended. The normalizer yields an item for every reply text, and no parse
  error escapes it. When the tagged block yields a list element, the item is that element
  as it is (null or no object when the element is). Otherwise the item is an object with
  four string fields \<open>word\<close>, \<open>topic\<close>, \<open>level\<close>, \<open>hint\<close>: the pipe item, or, when the
  pipe form fails too, the fixed item \<open>Word\<close>, \<open>General\<close>, \<open>All\<close> whose hint is the cleaned
  text, or \<^verbatim>\<open>Start learning now!\<close> when that is empty, with the parse-failure notice
  and the history untouched. \<open>fetchSuggestion\<close> applies the normalizer to the response of
  \<open>post\<close>, and shows the fixed item with the default hint when the request is rejected.
\<close>
theorem normalizer_always_yields_an_item:
  "from_learned (JObj [(''reply'', JStr txt)]) = None \<and>
   reply_text (JObj [(''reply'', JStr txt)]) [] = txt \<and>
   (from_learned res = None \<longrightarrow>
     (\<forall>x. from_tagged parse (reply_text res []) = Some x \<longrightarrow>
        suggestion (normalize parse now res pg) = x) \<and>
     (from_tagged parse (reply_text res []) = None \<longrightarrow>
        (\<exists>w t l h. suggestion (normalize parse now res pg) =
           JObj [(''word'', JStr w), (''topic'', JStr t), (''level'', JStr l), (''hint'', JStr h)])) \<and>
     (from_tagged parse (reply_text res []) = None \<and>
      from_pipe (trim (strip_tagged (reply_text res []))) = None \<longrightarrow>
        suggestion (normalize parse now res pg) =
          JObj [(''word'', JStr ''Word''), (''topic'', JStr ''General''), (''level'', JStr ''All''),
                (''hint'', JStr (if trim (strip_tagged (reply_text res [])) = []
                                then ''Start learning now!''
                                else trim (strip_tagged (reply_text res []))))] \<and>
        toast (normalize parse now res pg) = Some ''Daily suggestion parse failed'' \<and>
        storage (normalize parse now res pg) = storage pg)) \<and>
   (\<forall>r. outcome (post wx stringify ''/chat''
          (JObj [(''session_id'', sessionId), (''message'', JStr suggestion_message)])
          (storage pg)) = Resolved r \<longrightarrow>
      fetchSuggestion wx stringify parse now sessionId pg =
        normalize parse now r
          (pg\<lparr>storage := store (post wx stringify ''/chat''
             (JObj [(''session_id'', sessionId), (''message'', JStr suggestion_message)])
             (storage pg))\<rparr>)) \<and>
   (\<forall>e. outcome (post wx stringify ''/chat''
          (JObj [(''session_id'', sessionId), (''message'', JStr suggestion_message)])
          (storage pg)) = Rejected e \<longrightarrow>
      suggestion (fetchSuggestion wx stringify parse now sessionId pg) =
        JObj [(''word'', JStr ''Word''), (''topic'', JStr ''General''), (''level'', JStr ''All''),
              (''hint'', JStr ''Start learning now!'')])"
proof -
  let ?txt = "reply_text res []"
  let ?clean = "trim (strip_tagged ?txt)"
  have A: "suggestion (normalize parse now res pg) = x"
    if "from_learned res = None" "from_tagged parse ?txt = Some x" for x
    using that by (simp add: normalize_tagged)
  have B: "\<exists>w t l h. suggestion (normalize parse now res pg) =
           JObj [(''word'', JStr w), (''topic'', JStr t), (''level'', JStr l), (''hint'', JStr h)]"
    if h: "from_learned res = None" "from_tagged parse ?txt = None"
  proof (cases "from_pipe ?clean")
    case None
    with h show ?thesis by (simp add: normalize_fallback fallback_item_eq)
  next
    case (Some item)
    with h from_pipe_shape [OF Some] show ?thesis by (simp add: normalize_pipe)
  qed
  have C: "suggestion (normalize parse now res pg) =
          JObj [(''word'', JStr ''Word''), (''topic'', JStr ''General''), (''level'', JStr ''All''),
                (''hint'', JStr (if ?clean = [] then ''Start learning now!'' else ?clean))] \<and>
        toast (normalize parse now res pg) = Some ''Daily suggestion parse failed'' \<and>
        storage (normalize parse now res pg) = storage pg"
    if "from_learned res = None" "from_tagged parse ?txt = None" "from_pipe ?clean = None"
    using that by (simp add: normalize_fallback fallback_item_eq)
  have D: "\<forall>r. outcome (post wx stringify ''/chat''
          (JObj [(''session_id'', sessionId), (''message'', JStr suggestion_message)])
          (storage pg)) = Resolved r \<longrightarrow>
      fetchSuggestion wx stringify parse now sessionId pg =
        normalize parse now r
          (pg\<lparr>storage := store (post wx stringify ''/chat''
             (JObj [(''session_id'', sessionId), (''message'', JStr suggestion_message)])
             (storage pg))\<rparr>)"
    by (simp add: fetchSuggestion_def Let_def)
  have E: "\<forall>e. outcome (post wx stringify ''/chat''
          (JObj [(''session_id'', sessionId), (''message'', JStr suggestion_message)])
          (storage pg)) = Rejected e \<longrightarrow>
      suggestion (fetchSuggestion wx stringify parse now sessionId pg) =
        JObj [(''word'', JStr ''Word''), (''topic'', JStr ''General''), (''level'', JStr ''All''),
              (''hint'', JStr ''Start learning now!'')]"
    by (simp add: fetchSuggestion_def Let_def)
  have ABC: "from_learned res = None \<longrightarrow>
     (\<forall>x. from_tagged parse ?txt = Some x \<longrightarrow> suggestion (normalize parse now res pg) = x) \<and>
     (from_tagged parse ?txt = None \<longrightarrow>
        (\<exists>w t l h. suggestion (normalize parse now res pg) =
           JObj [(''word'', JStr w), (''topic'', JStr t), (''level'', JStr l), (''hint'', JStr h)])) \<and>
     (from_tagged parse ?txt = None \<and> from_pipe ?clean = None \<longrightarrow>
        suggestion (normalize parse now res pg) =
          JObj [(''word'', JStr ''Word''), (''topic'', JStr ''General''), (''level'', JStr ''All''),
                (''hint'', JStr (if ?clean = [] then ''Start learning now!'' else ?clean))] \<and>
        toast (normalize parse now res pg) = Some ''Daily suggestion parse failed'' \<and>
        storage (normalize parse now res pg) = storage pg)"
    using A B C by blast
  from ABC D E reply_only [of "txt"] show ?thesis by (intro conjI)
qed

theorem normalizer_always_yields_an_item_witness:
  "from_learned (JObj [(''reply'', JStr ''not enough parts'')]) = None \<and>
   from_tagged JSON_parse (reply_text (JObj [(''reply'', JStr ''not enough parts'')]) []) = None \<and>
   from_pipe (trim (strip_tagged (reply_text (JObj [(''reply'', JStr ''not enough parts'')]) [])))
     = None \<and>
   suggestion (normalize JSON_parse 5 (JObj [(''reply'', JStr ''not enough parts'')])
     \<lparr>suggestion = JUndefined, toast = None, storage = empty_storage\<rparr>) =
     JObj [(''word'', JStr ''Word''), (''topic'', JStr ''General''), (''level'', JStr ''All''),
           (''hint'', JStr ''not enough parts'')]"
proof -
  let ?res = "JObj [(''reply'', JStr ''not enough parts'')]"
  have t: "tagged_content ''not enough parts'' = None"
    by code_simp
  have h2: "from_tagged JSON_parse (reply_text ?res []) = None"
    by (simp add: from_tagged_def t)
  have c: "trim (strip_tagged ''not enough parts'') = ''not enough parts''"
    by code_simp
  have h3: "from_pipe (trim (strip_tagged (reply_text ?res []))) = None"
    unfolding reply_only c by code_simp
  from normalizer_always_yields_an_item
    [of "''not enough parts''" ?res JSON_parse 5
        "\<lparr>suggestion = JUndefined, toast = None, storage = empty_storage\<rparr>"
        "\<lambda>m u b. NoCallback" "\<lambda>v. JUndefined" JNull]
  show ?thesis using h2 h3 by (simp add: c)
qed


lemma find_sub_after:
  assumes "p \<noteq> []" "hd p \<notin> set (tl p)" "find_sub p b = None"
  shows "find_sub p (b @ p @ t) = Some (b, t)"
  using assms(3)
proof (induction b)
  case Nil
  with assms(1) show ?case by (simp add: find_sub_here)
next
  case (Cons c b)
  from Cons.prems have no: "take (length p) (c # b) \<noteq> p" and rest: "find_sub p b = None"
    by (auto split: if_splits option.splits)
  have "take (length p) (c # b @ p @ t) \<noteq> p"
  proof
    assume eq: "take (length p) (c # b @ p @ t) = p"
    show False
    proof (cases "length p \<le> length (c # b)")
      case True
      then have "take (length p) (c # b @ p @ t) = take (length p) (c # b)"
        by (metis append_Cons take_append diff_is_0_eq take_0 append_Nil2)
      with eq no show False by simp
    next
      case False
      then have m: "length (c # b) < length p" by simp
      have "p ! length (c # b) = (take (length p) ((c # b) @ p @ t)) ! length (c # b)"
        using eq by simp
      also have "\<dots> = ((c # b) @ p @ t) ! length (c # b)"
        using m by (simp only: nth_take)
      also have "\<dots> = (p @ t) ! 0"
        using nth_append_length_plus [of "c # b" "p @ t" 0] by simp
      also have "\<dots> = hd p"
        using assms(1) by (cases p) auto
      finally have "p ! length (c # b) = hd p" .
      moreover have "p ! length (c # b) \<in> set (tl p)"
      proof -
        obtain x xs where p: "p = x # xs" using assms(1) by (cases p) auto
        from m p have "length b < length xs" by simp
        then have "xs ! length b \<in> set xs" by (rule nth_mem)
        with p show ?thesis by simp
      qed
      ultimately show False using assms(2) by simp
    qed
  qed
  with Cons.IH [OF rest] show ?case by simp
qed

lemma tag_borders [simp]:
  "hd open_tag \<notin> set (tl open_tag)" "hd close_tag \<notin> set (tl close_tag)"
  by (simp_all add: open_tag_def close_tag_def)

lemma strip_tagged_block_gen:
  assumes "find_sub close_tag b = None"
  shows "strip_tagged (open_tag @ b @ close_tag @ t) = strip_tagged t"
proof -
  have 1: "find_sub open_tag (open_tag @ b @ close_tag @ t) = Some ([], b @ close_tag @ t)"
    by (rule find_sub_here) simp
  have 2: "find_sub close_tag (b @ close_tag @ t) = Some (b, t)"
    using tags(3) tag_borders(2) assms by (rule find_sub_after)
  show ?thesis
    by (simp add: strip_tagged.simps [of "open_tag @ b @ close_tag @ t"] 1 2)
qed

lemma strip_tagged_plain_block:
  assumes "find_sub open_tag s = None" "find_sub close_tag b = None"
  shows "strip_tagged (s @ open_tag @ b @ close_tag @ t) = s @ strip_tagged t"
proof -
  have 1: "find_sub open_tag (s @ open_tag @ b @ close_tag @ t) = Some (s, b @ close_tag @ t)"
    using tags(1) tag_borders(1) assms(1) by (rule find_sub_after)
  have 2: "find_sub close_tag (b @ close_tag @ t) = Some (b, t)"
    using tags(3) tag_borders(2) assms(2) by (rule find_sub_after)
  show ?thesis
    by (simp add: strip_tagged.simps [of "s @ open_tag @ b @ close_tag @ t"] 1 2)
qed

lemma strip_tagged_tidy: "tidy segs \<Longrightarrow> strip_tagged (render segs) = plain_text segs"
proof (induction segs rule: tidy.induct)
  case 1
  then show ?case by (simp add: strip_tagged.simps open_tag_def)
next
  case (2 b segs)
  then show ?case by (simp add: strip_tagged_block_gen)
next
  case (3 s)
  then show ?case by (simp add: strip_tagged_none)
next
  case (4 s b segs)
  then have a: "find_sub open_tag s = None" "find_sub close_tag b = None" "tidy segs"
    and ih: "strip_tagged (render (Block b # segs)) = plain_text (Block b # segs)"
    by simp_all
  from ih a(2) have "strip_tagged (render segs) = plain_text segs"
    by (simp add: strip_tagged_block_gen)
  with a show ?case by (simp add: strip_tagged_plain_block)
next
  case (5 s s' segs)
  then show ?case by simp
qed

lemma tagged_content_first:
  assumes "find_sub open_tag a = None" "find_sub close_tag b = None"
  shows "tagged_content (a @ open_tag @ b @ close_tag @ t) = Some (trim b)"
proof -
  have 1: "find_sub open_tag (a @ open_tag @ b @ close_tag @ t) = Some (a, b @ close_tag @ t)"
    using tags(1) tag_borders(1) assms(1) by (rule find_sub_after)
  have 2: "find_sub close_tag (b @ close_tag @ t) = Some (b, t)"
    using tags(3) tag_borders(2) assms(2) by (rule find_sub_after)
  show ?thesis by (simp add: tagged_content_def 1 2)
qed

lemma set_trim: "set (trim s) \<subseteq> set s"
proof -
  have "set (trim s) = set (dropWhile is_space (rev (dropWhile is_space s)))"
    by (simp add: trim_def)
  also have "\<dots> \<subseteq> set (rev (dropWhile is_space s))"
    by (auto dest: set_dropWhileD)
  also have "\<dots> \<subseteq> set s"
    by (auto dest: set_dropWhileD)
  finally show ?thesis .
qed

lemma plain_text_no_lt: "list_all no_lt segs \<Longrightarrow> CHR ''<'' \<notin> set (plain_text segs)"
  by (induction segs rule: plain_text.induct) auto

lemma reply_text_string:
  "get_prop res ''reply'' = JStr s \<Longrightarrow> s \<noteq> [] \<Longrightarrow> reply_text res dflt = s"
  by (cases res) (auto simp: reply_text_def)

lemma onSend_then_tidy:
  assumes "get_prop res ''reply'' = JStr (render segs)" "render segs \<noteq> []" "tidy segs"
  shows "fst (onSend_then clock res st) = trim (plain_text segs)"
  using assms by (simp add: onSend_then_text reply_text_string strip_tagged_tidy)

lemma onSend_then_no_lt:
  assumes "get_prop res ''reply'' = JStr (render segs)" "render segs \<noteq> []" "list_all no_lt segs"
  shows "fst (onSend_then clock res st) = trim (plain_text segs) \<and>
         CHR ''<'' \<notin> set (fst (onSend_then clock res st))"
proof -
  have d: "fst (onSend_then clock res st) = trim (plain_text segs)"
    using assms by (simp add: onSend_then_text reply_text_string strip_tagged_render)
  have "CHR ''<'' \<notin> set (trim (plain_text segs))"
    using plain_text_no_lt [OF assms(3)] set_trim [of "plain_text segs"] by blast
  with d show ?thesis by simp
qed

lemma example_block:
  "JSON_parse ''[{\"word\":\"cat\",\"topic\":\"animals\",\"level\":\"Beginner\",\"hint\":\"a pet\"}]'' =
     Inr (JArr [JObj [(''word'', JStr ''cat''), (''topic'', JStr ''animals''),
                      (''level'', JStr ''Beginner''), (''hint'', JStr ''a pet'')]])"
  by code_simp

lemma example_content:
  "tagged_content ''Hello <learned_json>[{\"word\":\"cat\",\"topic\":\"animals\",\"level\":\"Beginner\",\"hint\":\"a pet\"}]</learned_json>'' =
     Some ''[{\"word\":\"cat\",\"topic\":\"animals\",\"level\":\"Beginner\",\"hint\":\"a pet\"}]''"
  by code_simp

lemma example_cleaned:
  "trim (strip_tagged ''Hello <learned_json>[{\"word\":\"cat\",\"topic\":\"animals\",\"level\":\"Beginner\",\"hint\":\"a pet\"}]</learned_json>'') = ''Hello''"
  by code_simp

text \<open>
  Claim C4 says that the displayed text always has every tagged block stripped, and that
  a tagged block whose content parses as a non-empty list gives the item. Neither holds
  for every reply. The blocks are removed in one pass, so tags nested in one another leave
  a whole block in the displayed text; and only the first block is looked at, so a reply
  whose first block does not parse and whose second block does gives the fallback item.
\<close>
theorem nested_tags_leave_a_block_and_later_blocks_are_ignored:
  "fst (onSend_then (\<lambda>i. 0)
     (JObj [(''reply'', JStr ''Hi <learned<learned_json>x</learned_json>_json>[7]</learned_json>'')])
     empty_storage) = ''Hi <learned_json>[7]</learned_json>'' \<and>
   tagged_content ''Hi <learned_json>[7]</learned_json>'' = Some ''[7]'' \<and>
   JSON_parse ''[7]'' = Inr (JArr [JNum 7]) \<and>
   suggestion (normalize JSON_parse 5
     (JObj [(''reply'', JStr ''word <learned_json>oops</learned_json><learned_json>[7]</learned_json>'')])
     \<lparr>suggestion = JUndefined, toast = None, storage = empty_storage\<rparr>) =
     JObj [(''word'', JStr ''Word''), (''topic'', JStr ''General''), (''level'', JStr ''All''),
           (''hint'', JStr ''word'')]"
  by code_simp

text \<open>
  Claim C4, amended. When the first tagged block of the reply text, from the leftmost
  opening tag to the nearest closing tag after it, has a trimmed content that parses as a
  non-empty list (and the response carries no non-empty \<open>learned\<close> list), the item is the
  first element of that list, as it is. The text that the chat page displays for a reply
  text is, whatever else the response holds, the reply with its tagged blocks removed in
  one pass from left to right and then trimmed: on a reply laid out as plain stretches
  without an opening tag and blocks without a closing tag in their body, what is displayed
  is the trimmed plain stretches, and it holds no \<^verbatim>\<open><\<close> at all when the plain stretches
  hold none. For the reply of the example the item is the cat item and the displayed text
  is \<open>Hello\<close>.
\<close>
theorem first_tagged_list_gives_first_element_and_one_pass_strips_blocks:
  "(\<forall>m1 x xs. from_learned res = None \<and> tagged_content (reply_text res []) = Some m1 \<and>
      m1 \<noteq> [] \<and> parse m1 = Inr (JArr (x # xs)) \<longrightarrow>
      suggestion (normalize parse now res pg) = x) \<and>
   (find_sub open_tag a = None \<and> find_sub close_tag b = None \<longrightarrow>
      tagged_content (a @ open_tag @ b @ close_tag @ c) = Some (trim b)) \<and>
   (tidy segs \<longrightarrow> strip_tagged (render segs) = plain_text segs) \<and>
   (get_prop res ''reply'' = JStr (render segs) \<and> render segs \<noteq> [] \<and> tidy segs \<longrightarrow>
      fst (onSend_then clock res st) = trim (plain_text segs)) \<and>
   (list_all no_lt segs2 \<longrightarrow> strip_tagged (render segs2) = plain_text segs2) \<and>
   (get_prop res2 ''reply'' = JStr (render segs2) \<and> render segs2 \<noteq> [] \<and>
    list_all no_lt segs2 \<longrightarrow>
      fst (onSend_then clock res2 st) = trim (plain_text segs2) \<and>
      CHR ''<'' \<notin> set (fst (onSend_then clock res2 st))) \<and>
   suggestion (normalize JSON_parse now
     (JObj [(''reply'', JStr ''Hello <learned_json>[{\"word\":\"cat\",\"topic\":\"animals\",\"level\":\"Beginner\",\"hint\":\"a pet\"}]</learned_json>'')])
     pg) =
     JObj [(''word'', JStr ''cat''), (''topic'', JStr ''animals''), (''level'', JStr ''Beginner''),
           (''hint'', JStr ''a pet'')] \<and>
   fst (onSend_then clock
     (JObj [(''reply'', JStr ''Hello <learned_json>[{\"word\":\"cat\",\"topic\":\"animals\",\"level\":\"Beginner\",\"hint\":\"a pet\"}]</learned_json>'')])
     st) = ''Hello''"
  (is "?A \<and> ?B \<and> ?C \<and> ?D \<and> ?E \<and> ?F \<and> ?G \<and> ?H")
proof -
  have A: ?A
    by (auto simp: normalize_tagged dest: from_tagged_list)
  have B: ?B by (simp add: tagged_content_first)
  have C: ?C by (simp add: strip_tagged_tidy)
  have D: ?D by (simp add: onSend_then_tidy)
  have E: ?E by (simp add: strip_tagged_render)
  have F: ?F using onSend_then_no_lt [of res2 segs2 clock st] by blast
  have "from_tagged JSON_parse ''Hello <learned_json>[{\"word\":\"cat\",\"topic\":\"animals\",\"level\":\"Beginner\",\"hint\":\"a pet\"}]</learned_json>'' =
     Some (JObj [(''word'', JStr ''cat''), (''topic'', JStr ''animals''),
                 (''level'', JStr ''Beginner''), (''hint'', JStr ''a pet'')])"
    by (simp add: from_tagged_def example_content example_block)
  then have G: ?G by (simp add: normalize_tagged)
  have H: ?H
    by (simp add: onSend_then_text reply_text_def example_cleaned)
  from A B C D E F G H show ?thesis by (intro conjI)
qed

theorem first_tagged_list_gives_first_element_and_one_pass_strips_blocks_witness:
  "from_learned (JObj [(''reply'', JStr ''a < b <learned_json> [7, 8] </learned_json> there'')]) = None \<and>
   tagged_content
     (reply_text (JObj [(''reply'', JStr ''a < b <learned_json> [7, 8] </learned_json> there'')]) [])
     = Some ''[7, 8]'' \<and>
   JSON_parse ''[7, 8]'' = Inr (JArr [JNum 7, JNum 8]) \<and>
   suggestion (normalize JSON_parse 5
     (JObj [(''reply'', JStr ''a < b <learned_json> [7, 8] </learned_json> there'')])
     \<lparr>suggestion = JUndefined, toast = None, storage = empty_storage\<rparr>) = JNum 7 \<and>
   find_sub open_tag ''a < b '' = None \<and> find_sub close_tag '' [7, 8] '' = None \<and>
   tagged_content (''a < b '' @ open_tag @ '' [7, 8] '' @ close_tag @ '' there'') = Some ''[7, 8]'' \<and>
   tidy [Plain ''a < b '', Block '' [7, 8] '', Plain '' there''] \<and>
   get_prop (JObj [(''reply'', JStr ''a < b <learned_json> [7, 8] </learned_json> there'')]) ''reply'' =
     JStr (render [Plain ''a < b '', Block '' [7, 8] '', Plain '' there'']) \<and>
   fst (onSend_then (\<lambda>i. 0)
     (JObj [(''reply'', JStr ''a < b <learned_json> [7, 8] </learned_json> there'')])
     empty_storage) = ''a < b  there'' \<and>
   list_all no_lt [Plain ''Hi '', Block ''[1]'', Plain '' you''] \<and>
   get_prop (JObj [(''reply'', JStr ''Hi <learned_json>[1]</learned_json> you'')]) ''reply'' =
     JStr (render [Plain ''Hi '', Block ''[1]'', Plain '' you'']) \<and>
   fst (onSend_then (\<lambda>i. 0) (JObj [(''reply'', JStr ''Hi <learned_json>[1]</learned_json> you'')])
     empty_storage) = ''Hi  you''"
proof -
  let ?res = "JObj [(''reply'', JStr ''a < b <learned_json> [7, 8] </learned_json> there'')]"
  let ?segs = "[Plain ''a < b '', Block '' [7, 8] '', Plain '' there'']"
  let ?res2 = "JObj [(''reply'', JStr ''Hi <learned_json>[1]</learned_json> you'')]"
  let ?segs2 = "[Plain ''Hi '', Block ''[1]'', Plain '' you'']"
  have h1: "tagged_content (reply_text ?res []) = Some ''[7, 8]''"
    unfolding reply_only by code_simp
  have h2: "JSON_parse ''[7, 8]'' = Inr (JArr [JNum 7, JNum 8])"
    by code_simp
  have h3: "trim '' [7, 8] '' = ''[7, 8]''"
    by code_simp
  have h4: "find_sub open_tag ''a < b '' = None" "find_sub close_tag '' [7, 8] '' = None"
    by code_simp+
  have h5: "tidy ?segs"
    by code_simp
  have h6: "render ?segs = ''a < b <learned_json> [7, 8] </learned_json> there''"
    "render ?segs2 = ''Hi <learned_json>[1]</learned_json> you''"
    by (simp_all add: open_tag_def close_tag_def)
  have h7: "trim (plain_text ?segs) = ''a < b  there''" "trim (plain_text ?segs2) = ''Hi  you''"
    by code_simp+
  have h8: "list_all no_lt ?segs2"
    by simp
  note T = first_tagged_list_gives_first_element_and_one_pass_strips_blocks
    [of ?res JSON_parse 5 "\<lparr>suggestion = JUndefined, toast = None, storage = empty_storage\<rparr>"
        "''a < b ''" "'' [7, 8] ''" "'' there''" ?segs "\<lambda>i. 0" empty_storage ?segs2 ?res2]
  have s1: "suggestion (normalize JSON_parse 5 ?res \<lparr>suggestion = JUndefined, toast = None, storage = empty_storage\<rparr>) = JNum 7"
    using T h1 h2 by simp
  have s2: "tagged_content (''a < b '' @ open_tag @ '' [7, 8] '' @ close_tag @ '' there'') = Some ''[7, 8]''"
    using T h4 by (simp only: h3) 
  have s3: "fst (onSend_then (\<lambda>i. 0) ?res empty_storage) = ''a < b  there''"
    using T h5 by (simp only: h6 h7 get_prop.simps) simp
  have s4: "fst (onSend_then (\<lambda>i. 0) ?res2 empty_storage) = ''Hi  you''"
    using T h8 by (simp only: h6 h7 get_prop.simps) simp
  have c0: "from_learned ?res = None"
    by simp
  have g1: "get_prop ?res ''reply'' = JStr (render ?segs)"
    unfolding h6 by simp
  have g2: "get_prop ?res2 ''reply'' = JStr (render ?segs2)"
    unfolding h6 by simp
  from c0 h1 h2 s1 h4 s2 h5 g1 s3 h8 g2 s4 show ?thesis
    by (intro conjI)
qed

text \<open>
  Claim C5 says that every reply whose stripped form has four pipe segments gives the
  pipe item. The tagged block comes first in the cascade: a reply with four segments and
  a block holding a non-empty list gives the first element of the list.
\<close>
theorem tagged_block_takes_precedence_over_pipes:
  "4 \<le> length (map trim (split_on CHR ''|'' (trim (strip_tagged
     ''dog | animals | Beginner | a loyal pet <learned_json>[{\"word\":\"hound\"}]</learned_json>'')))) \<and>
   suggestion (normalize JSON_parse 5
     (JObj [(''reply'', JStr ''dog | animals | Beginner | a loyal pet <learned_json>[{\"word\":\"hound\"}]</learned_json>'')])
     \<lparr>suggestion = JUndefined, toast = None, storage = empty_storage\<rparr>) =
     JObj [(''word'', JStr ''hound'')]"
  by code_simp

text \<open>
  Claim C5, amended. When the response carries no non-empty \<open>learned\<close> list and the tagged
  block of the reply yields no list element, and the stripped and trimmed reply splits on
  the pipe into at least four segments, the item has the first three trimmed segments as
  \<open>word\<close>, \<open>topic\<close> and \<open>level\<close>, and the trimmed segments from the fourth on, joined
  with \<^verbatim>\<open> | \<close>, as \<open>hint\<close>.
\<close>
theorem pipe_reply_gives_positional_item:
  "from_learned res = None \<and> from_tagged parse (reply_text res []) = None \<and>
   4 \<le> length (split_on CHR ''|'' (trim (strip_tagged (reply_text res [])))) \<longrightarrow>
   suggestion (normalize parse now res pg) =
     JObj [(''word'', JStr (map trim (split_on CHR ''|'' (trim (strip_tagged (reply_text res [])))) ! 0)),
           (''topic'', JStr (map trim (split_on CHR ''|'' (trim (strip_tagged (reply_text res [])))) ! 1)),
           (''level'', JStr (map trim (split_on CHR ''|'' (trim (strip_tagged (reply_text res [])))) ! 2)),
           (''hint'', JStr (join '' | ''
              (drop 3 (map trim (split_on CHR ''|'' (trim (strip_tagged (reply_text res []))))))))]"
proof (intro impI, elim conjE)
  let ?parts = "map trim (split_on CHR ''|'' (trim (strip_tagged (reply_text res []))))"
  assume h: "from_learned res = None" "from_tagged parse (reply_text res []) = None"
    "4 \<le> length (split_on CHR ''|'' (trim (strip_tagged (reply_text res []))))"
  have "from_pipe (trim (strip_tagged (reply_text res []))) =
          Some (JObj [(''word'', JStr (?parts ! 0)), (''topic'', JStr (?parts ! 1)),
                      (''level'', JStr (?parts ! 2)),
                      (''hint'', JStr (join '' | '' (drop 3 ?parts)))])"
    using h(3) by (simp add: from_pipe_def Let_def)
  with h(1,2) show "suggestion (normalize parse now res pg) =
     JObj [(''word'', JStr (?parts ! 0)), (''topic'', JStr (?parts ! 1)),
           (''level'', JStr (?parts ! 2)), (''hint'', JStr (join '' | '' (drop 3 ?parts)))]"
    by (simp add: normalize_pipe)
qed

theorem pipe_reply_gives_positional_item_witness:
  "from_learned (JObj [(''reply'', JStr ''dog | animals | Beginner | a loyal pet | extra'')]) = None \<and>
   from_tagged JSON_parse
     (reply_text (JObj [(''reply'', JStr ''dog | animals | Beginner | a loyal pet | extra'')]) []) = None \<and>
   4 \<le> length (split_on CHR ''|'' (trim (strip_tagged
     (reply_text (JObj [(''reply'', JStr ''dog | animals | Beginner | a loyal pet | extra'')]) [])))) \<and>
   suggestion (normalize JSON_parse 5
     (JObj [(''reply'', JStr ''dog | animals | Beginner | a loyal pet | extra'')])
     \<lparr>suggestion = JUndefined, toast = None, storage = empty_storage\<rparr>) =
     JObj [(''word'', JStr ''dog''), (''topic'', JStr ''animals''), (''level'', JStr ''Beginner''),
           (''hint'', JStr ''a loyal pet | extra'')]"
proof -
  let ?txt = "''dog | animals | Beginner | a loyal pet | extra''"
  let ?res = "JObj [(''reply'', JStr ?txt)]"
  have t: "tagged_content ?txt = None"
    by code_simp
  have h2: "from_tagged JSON_parse (reply_text ?res []) = None"
    by (simp add: from_tagged_def t)
  have parts: "split_on CHR ''|'' (trim (strip_tagged ?txt)) =
      [''dog '', '' animals '', '' Beginner '', '' a loyal pet '', '' extra'']"
    by code_simp
  have trims: "map trim [''dog '', '' animals '', '' Beginner '', '' a loyal pet '', '' extra''] =
      [''dog'', ''animals'', ''Beginner'', ''a loyal pet'', ''extra'']"
    by code_simp
  from pipe_reply_gives_positional_item
    [of ?res JSON_parse 5 "\<lparr>suggestion = JUndefined, toast = None, storage = empty_storage\<rparr>"]
  show ?thesis using h2 by (simp add: parts trims del: list.map)
qed

end
